theory Spec2Isabelle
  imports Complex_Main "HOL-Library.AList"
begin

section \<open>Python strings\<close>

text \<open>
  A Python \<open>str\<close> is modelled as a \<open>string\<close>, each \<open>char\<close> standing for the code point
  of the same number (0 to 255).  The character classes below are Python's on that range.
\<close>

definition py_isspace :: "char \<Rightarrow> bool" where
  \<comment> \<open>the characters \<open>str.strip()\<close> removes and the pattern \<open>\s\<close> matches\<close>
  "py_isspace c \<longleftrightarrow> c \<in> set [CHR 0x09, CHR 0x0A, CHR 0x0B, CHR 0x0C, CHR 0x0D,
      CHR 0x1C, CHR 0x1D, CHR 0x1E, CHR 0x1F, CHR 0x20, CHR 0x85, CHR 0xA0]"

definition py_strip :: "string \<Rightarrow> string" where
  "py_strip s = rev (dropWhile py_isspace (rev (dropWhile py_isspace s)))"

definition is_decimal :: "char \<Rightarrow> bool" where
  \<comment> \<open>the pattern \<open>\d\<close>: the decimal digits\<close>
  "is_decimal c \<longleftrightarrow> c \<in> set ''0123456789''"

definition upper_char :: "char \<Rightarrow> string" where
  \<comment> \<open>\<open>str.upper()\<close> on one character; sharp s becomes SS; the capitals of micro sign and
      y-diaeresis lie beyond code point 255 and are kept as the (non-letter, non-digit,
      non-space) characters they are\<close>
  "upper_char c =
     (let n = (of_char c :: nat) in
      if 97 \<le> n \<and> n \<le> 122 then [char_of (n - 32)]
      else if n = 223 then ''SS''
      else if 224 \<le> n \<and> n \<le> 254 \<and> n \<noteq> 247 then [char_of (n - 32)]
      else [c])"

definition py_upper :: "string \<Rightarrow> string" where
  "py_upper s = concat (map upper_char s)"

definition lower_char :: "char \<Rightarrow> char" where
  "lower_char c =
     (let n = (of_char c :: nat) in
      if 65 \<le> n \<and> n \<le> 90 then char_of (n + 32)
      else if 192 \<le> n \<and> n \<le> 222 \<and> n \<noteq> 215 then char_of (n + 32)
      else c)"

definition py_lower :: "string \<Rightarrow> string" where
  "py_lower s = map lower_char s"

definition startswith :: "string \<Rightarrow> string \<Rightarrow> bool" where
  "startswith s p \<longleftrightarrow> take (length p) s = p"

fun contains :: "string \<Rightarrow> string \<Rightarrow> bool" where
  \<comment> \<open>\<open>p in s\<close> on strings\<close>
  "contains [] p = (p = [])"
| "contains (c # cs) p = (startswith (c # cs) p \<or> contains cs p)"

text \<open>The exceptions the modelled code can raise; a \<open>ValueError\<close> carries its message.\<close>

datatype py_error =
    ValueError string
  | KeyError
  | AttributeError
  | TypeError
  | OverflowError
  | JSONDecodeError
  | RecursionError

definition digit_value :: "char \<Rightarrow> int" where
  "digit_value c = int (of_char c) - 48"

definition digits_value :: "string \<Rightarrow> int" where
  \<comment> \<open>the number a string of decimal digits denotes\<close>
  "digits_value s = foldl (\<lambda>acc c. 10 * acc + digit_value c) 0 s"

fun str_nat :: "nat \<Rightarrow> string" where
  "str_nat n = (if n < 10 then [char_of (48 + n)] else str_nat (n div 10) @ [char_of (48 + n mod 10)])"

declare str_nat.simps [simp del]

definition str_int :: "int \<Rightarrow> string" where
  \<comment> \<open>the decimal text of an integer\<close>
  "str_int i = (if i < 0 then CHR ''-'' # str_nat (nat (- i)) else str_nat (nat i))"

text \<open>
  CPython converts between \<open>int\<close> and \<open>str\<close> only up to 4300 decimal digits
  (\<open>sys.int_info.default_max_str_digits\<close>); beyond that both directions raise
  \<open>ValueError\<close>.  The digits of the text count as they stand, leading zeros too.
\<close>

definition int_limit_message :: "nat \<Rightarrow> string" where
  "int_limit_message n =
     ''Exceeds the limit (4300 digits) for integer string conversion: value has ''
     @ str_nat n @ '' digits; use sys.set_int_max_str_digits() to increase the limit''"

definition str_limit_message :: string where
  "str_limit_message =
     ''Exceeds the limit (4300 digits) for integer string conversion; ''
     @ ''use sys.set_int_max_str_digits() to increase the limit''"

definition py_int :: "string \<Rightarrow> py_error + int" where
  \<comment> \<open>\<open>int(s)\<close> on a non-empty string of decimal digits\<close>
  "py_int s =
     (if length s > 4300 then Inl (ValueError (int_limit_message (length s)))
      else Inr (digits_value s))"

definition py_str :: "int \<Rightarrow> py_error + string" where
  \<comment> \<open>\<open>str(i)\<close>, as an f-string renders an integer\<close>
  "py_str i =
     (if length (str_nat (nat \<bar>i\<bar>)) > 4300 then Inl (ValueError str_limit_message)
      else Inr (str_int i))"

definition float_overflows :: "int \<Rightarrow> bool" where
  \<comment> \<open>the integers that \<open>i * 0.1\<close> cannot convert to a float (\<open>OverflowError\<close>): those that
      round to \<open>2 ^ 1024\<close> or beyond\<close>
  "float_overflows i \<longleftrightarrow> 2 ^ 1024 - 2 ^ 970 \<le> \<bar>i\<bar>"

section \<open>Token preference parser (chatbot.py)\<close>

definition match_symbol :: "string \<Rightarrow> (string \<times> string) option" where
  \<comment> \<open>the group \<open>(USDC|ETH|NATIVE)\<close> at the head of the text: the symbol and the rest\<close>
  "match_symbol s =
     (if startswith s ''USDC'' then Some (''USDC'', drop 4 s)
      else if startswith s ''ETH'' then Some (''ETH'', drop 3 s)
      else if startswith s ''NATIVE'' then Some (''NATIVE'', drop 6 s)
      else None)"

definition match_percentage :: "string \<Rightarrow> ((string \<times> string) \<times> string) option" where
  \<comment> \<open>one match of \<open>(\d+)%?\s+(USDC|ETH|NATIVE)\<close> at the head of the text.  Each greedy
      run is maximal and giving back a character never helps: the character after a
      shortened run of digits is a digit (neither \<open>%\<close> nor space), and the one after a
      shortened run of spaces is a space (no symbol starts with it).\<close>
  "match_percentage s =
     (let ds = takeWhile is_decimal s; r1 = dropWhile is_decimal s in
      if ds = [] then None
      else
        let r2 = (case r1 of c # cs \<Rightarrow> if c = CHR ''%'' then cs else r1 | [] \<Rightarrow> r1);
            ws = takeWhile py_isspace r2; r3 = dropWhile py_isspace r2 in
        if ws = [] then None
        else (case match_symbol r3 of
                None \<Rightarrow> None
              | Some (tok, rest) \<Rightarrow> Some ((ds, tok), rest)))"

definition match_simple :: "string \<Rightarrow> ((string \<times> string) \<times> string) option" where
  \<comment> \<open>one match of \<open>(USDC|ETH|NATIVE)\s+(\d+)\<close> at the head of the text\<close>
  "match_simple s =
     (case match_symbol s of
        None \<Rightarrow> None
      | Some (tok, r1) \<Rightarrow>
          let ws = takeWhile py_isspace r1; r2 = dropWhile py_isspace r1;
              ds = takeWhile is_decimal r2; rest = dropWhile is_decimal r2 in
          if ws = [] \<or> ds = [] then None else Some ((tok, ds), rest))"

function findall :: "(string \<Rightarrow> ('m \<times> string) option) \<Rightarrow> string \<Rightarrow> 'm list" where
  \<comment> \<open>\<open>re.findall\<close> for a pattern whose match at the head of a text is \<open>f\<close>: scan from the
      left, after a match go on behind it (one character further after an empty match),
      after a failure one character further\<close>
  "findall f [] = (case f [] of Some (m, _) \<Rightarrow> [m] | None \<Rightarrow> [])"
| "findall f (c # cs) =
     (case f (c # cs) of
        Some (m, rest) \<Rightarrow> m # findall f (if length rest \<le> length cs then rest else cs)
      | None \<Rightarrow> findall f cs)"
  by pat_completeness auto
termination
  by (relation "measure (\<lambda>(f, s). length s)") auto

definition dict_add :: "string \<Rightarrow> int \<Rightarrow> (string \<times> int) list \<Rightarrow> (string \<times> int) list" where
  \<comment> \<open>\<open>if token in d: d[token] += percentage else: d[token] = percentage\<close>\<close>
  "dict_add token percentage d =
     (case map_of d token of
        Some v \<Rightarrow> AList.update token (v + percentage) d
      | None \<Rightarrow> AList.update token percentage d)"

fun sum_matches ::
  "(string \<times> string) list \<Rightarrow> (string \<times> int) list \<times> int
     \<Rightarrow> py_error + (string \<times> int) list \<times> int" where
  \<comment> \<open>the loop over the matches, on (token_allocation, total_percentage); \<open>int\<close> can raise\<close>
  "sum_matches [] st = Inr st"
| "sum_matches ((percentage, token) # ms) (token_allocation, total_percentage) =
     (case py_int percentage of
        Inl e \<Rightarrow> Inl e
      | Inr percentage \<Rightarrow>
          sum_matches ms (dict_add token percentage token_allocation,
                          total_percentage + percentage))"

definition find_matches :: "string \<Rightarrow> (string \<times> string) list" where
  \<comment> \<open>the (percentage, token) pairs: the first pattern, and the second one (its groups
      swapped) when the first finds nothing\<close>
  "find_matches preference =
     (let matches = findall match_percentage preference in
      if matches = [] then map (\<lambda>m. (snd m, fst m)) (findall match_simple preference)
      else matches)"

definition could_not_parse :: string where
  "could_not_parse = ''Could not parse token allocation. Please use format like ''
     @ [CHR 0x27] @ ''70% USDC and 30% NATIVE'' @ [CHR 0x27]"

definition exceeds_message :: "int \<Rightarrow> string" where
  \<comment> \<open>the f-string of the validation error, once \<open>str\<close> has rendered the total\<close>
  "exceeds_message total_percentage =
     ''Total percentage ('' @ str_int total_percentage @ ''%) cannot exceed 100%''"

definition parse_token_preference :: "string \<Rightarrow> py_error + (string \<times> int) list" where
  "parse_token_preference preference0 =
     (let preference = py_strip (py_upper preference0) in
      if preference \<in> set [''NATIVE'', ''USDC'', ''ETH''] then Inr [(preference, 100)]
      else
        let matches = find_matches preference in
        if matches = [] then Inl (ValueError could_not_parse)
        else
          (case sum_matches matches ([], 0) of
             Inl e \<Rightarrow> Inl e
           | Inr (token_allocation, total_percentage) \<Rightarrow>
               if total_percentage > 100 then
                 (case py_str total_percentage of
                    Inl e \<Rightarrow> Inl e
                  | Inr shown \<Rightarrow> Inl (ValueError (exceeds_message total_percentage)))
               else if total_percentage < 100 then
                 let remainder = 100 - total_percentage in
                 Inr (dict_add ''NATIVE'' remainder token_allocation)
               else Inr token_allocation))"

text \<open>What the claims speak of: the total of the matched percentages and a symbol's share.\<close>

definition matched_total :: "(string \<times> string) list \<Rightarrow> int" where
  "matched_total ms = sum_list (map (\<lambda>m. digits_value (fst m)) ms)"

definition matched_share :: "(string \<times> string) list \<Rightarrow> string \<Rightarrow> int" where
  "matched_share ms token = matched_total (filter (\<lambda>m. snd m = token) ms)"

fun add_matches :: "(string \<times> string) list \<Rightarrow> (string \<times> int) list \<Rightarrow> (string \<times> int) list" where
  \<comment> \<open>the allocation after the matches are added, each with the number its digits denote\<close>
  "add_matches [] d = d"
| "add_matches ((percentage, token) # ms) d =
     add_matches ms (dict_add token (digits_value percentage) d)"

definition within_int_limit :: "(string \<times> string) list \<Rightarrow> bool" where
  \<comment> \<open>no matched percentage has more than 4300 digits\<close>
  "within_int_limit ms \<longleftrightarrow> (\<forall>m \<in> set ms. length (fst m) \<le> 4300)"

section \<open>Decoded JSON (json.loads)\<close>

text \<open>
  What \<open>json.loads\<close> returns: \<open>None\<close>, a bool, an int, a float, a str, a list or a dict
  with string keys in the order of the text.  A finite float is the rational number it
  denotes.  The decoder itself belongs to the Python library, so the functions below take
  it as the parameter \<open>loads\<close>: \<open>Inr\<close> the decoded value, \<open>Inl\<close> the exception it raises,
  which is \<open>JSONDecodeError\<close> for a text that is no JSON, but also \<open>RecursionError\<close> (too
  deep a nesting) or a plain \<open>ValueError\<close> (a number of more than 4300 digits).
\<close>

datatype py_float = Finite rat | PosInf | NegInf | NaN

datatype json =
    JNull
  | JBool bool
  | JInt int
  | JFloat py_float
  | JStr string
  | JList "json list"
  | JDict "(string \<times> json) list"

type_synonym decoder = "string \<Rightarrow> py_error + json"

fun py_truthy :: "json \<Rightarrow> bool" where
  \<comment> \<open>the truth value of \<open>if x:\<close>\<close>
  "py_truthy JNull = False"
| "py_truthy (JBool b) = b"
| "py_truthy (JInt i) = (i \<noteq> 0)"
| "py_truthy (JFloat f) = (f \<noteq> Finite 0)"
| "py_truthy (JStr s) = (s \<noteq> [])"
| "py_truthy (JList xs) = (xs \<noteq> [])"
| "py_truthy (JDict d) = (d \<noteq> [])"

fun hashable :: "json \<Rightarrow> bool" where
  \<comment> \<open>a list or a dict as a dict key raises \<open>TypeError\<close>\<close>
  "hashable (JList xs) = False"
| "hashable (JDict d) = False"
| "hashable v = True"

fun number_of :: "json \<Rightarrow> py_float option" where
  \<comment> \<open>the number a bool, int or float stands for\<close>
  "number_of (JBool b) = Some (Finite (if b then 1 else 0))"
| "number_of (JInt i) = Some (Finite (of_int i))"
| "number_of (JFloat f) = Some f"
| "number_of v = None"

definition key_eq :: "json \<Rightarrow> json \<Rightarrow> bool" where
  \<comment> \<open>when two hashable values are the same dict key: equal strings, \<open>None\<close> and \<open>None\<close>, or
      equal numbers (\<open>1 == 1.0 == True\<close>); the decoder's \<open>NaN\<close> is one object, found again
      by identity\<close>
  "key_eq a b =
     (case (a, b) of
        (JStr s, JStr t) \<Rightarrow> s = t
      | (JNull, JNull) \<Rightarrow> True
      | _ \<Rightarrow> (case (number_of a, number_of b) of
                (Some x, Some y) \<Rightarrow> x = y
              | _ \<Rightarrow> False))"

fun results_get :: "(json \<times> json) list \<Rightarrow> json \<Rightarrow> json option" where
  \<comment> \<open>a dict keyed by decoded values: \<open>d[k]\<close> when \<open>k in d\<close>\<close>
  "results_get [] k = None"
| "results_get ((k', v) # d) k = (if key_eq k' k then Some v else results_get d k)"

fun results_set :: "(json \<times> json) list \<Rightarrow> json \<Rightarrow> json \<Rightarrow> (json \<times> json) list" where
  \<comment> \<open>\<open>d[k] = v\<close>: an equal key keeps its place and takes the new value\<close>
  "results_set [] k v = [(k, v)]"
| "results_set ((k', v') # d) k v =
     (if key_eq k' k then (k', v) # d else (k', v') # results_set d k v)"

definition dict_get :: "json \<Rightarrow> string \<Rightarrow> json \<Rightarrow> py_error + json" where
  \<comment> \<open>\<open>x.get(key, default)\<close>; only a dict has the method\<close>
  "dict_get x key dflt =
     (case x of
        JDict d \<Rightarrow> Inr (case map_of d key of Some v \<Rightarrow> v | None \<Rightarrow> dflt)
      | _ \<Rightarrow> Inl AttributeError)"

section \<open>Streaming response parser (final.py, swap.py)\<close>

fun split_lines :: "string \<Rightarrow> string list" where
  \<comment> \<open>\<open>s.split('\n')\<close>\<close>
  "split_lines [] = [[]]"
| "split_lines (c # cs) =
     (if c = CHR 0x0A then [] # split_lines cs
      else (case split_lines cs of l # ls \<Rightarrow> (c # l) # ls | [] \<Rightarrow> [[c]]))"

text \<open>The loop state: \<open>assistant_content\<close>, \<open>tool_invocations\<close> (\<open>tool_calls\<close> in swap.py)
  and \<open>tool_results\<close>.\<close>

type_synonym stream_state = "string \<times> json list \<times> (json \<times> json) list"

definition store_result :: "stream_state \<Rightarrow> json \<Rightarrow> py_error + stream_state" where
  \<comment> \<open>the body of the \<open>a:\<close> branch after decoding\<close>
  "store_result st tool_result_data =
     (case st of (assistant_content, tool_invocations, tool_results) \<Rightarrow>
      (case dict_get tool_result_data ''toolCallId'' JNull of
         Inl e \<Rightarrow> Inl e
       | Inr tool_call_id \<Rightarrow>
           if py_truthy tool_call_id then
             (if hashable tool_call_id
              then Inr (assistant_content, tool_invocations,
                        results_set tool_results tool_call_id tool_result_data)
              else Inl TypeError)
           else Inr st))"

definition line_body :: "decoder \<Rightarrow> stream_state \<Rightarrow> string \<Rightarrow> py_error + stream_state" where
  \<comment> \<open>the three branches on a stripped, non-blank line, with every exception they raise\<close>
  "line_body loads st line =
     (case st of (assistant_content, tool_invocations, tool_results) \<Rightarrow>
      if startswith line ''0:'' then
        (case loads (drop 2 line) of
           Inl e \<Rightarrow> Inl e
         | Inr (JStr content) \<Rightarrow> Inr (assistant_content @ content, tool_invocations, tool_results)
         | Inr _ \<Rightarrow> Inr st)
      else if startswith line ''9:'' then
        (case loads (drop 2 line) of
           Inl e \<Rightarrow> Inl e
         | Inr tool_call_data \<Rightarrow>
             Inr (assistant_content, tool_invocations @ [tool_call_data], tool_results))
      else if startswith line ''a:'' then
        (case loads (drop 2 line) of
           Inl e \<Rightarrow> Inl e
         | Inr tool_result_data \<Rightarrow> store_result st tool_result_data)
      else Inr st)"

fun caught_final :: "py_error \<Rightarrow> bool" where
  \<comment> \<open>final.py: \<open>except (json.JSONDecodeError, KeyError): continue\<close>\<close>
  "caught_final JSONDecodeError = True"
| "caught_final KeyError = True"
| "caught_final e = False"

definition process_line_final :: "decoder \<Rightarrow> stream_state \<Rightarrow> string \<Rightarrow> py_error + stream_state" where
  \<comment> \<open>one round of the loop in final.py; \<open>Inl\<close> is an exception that the inner handler
      does not catch\<close>
  "process_line_final loads st line0 =
     (let line = py_strip line0 in
      if line = [] then Inr st
      else (case line_body loads st line of
              Inl e \<Rightarrow> if caught_final e then Inr st else Inl e
            | Inr st' \<Rightarrow> Inr st'))"

definition process_line_swap :: "decoder \<Rightarrow> stream_state \<Rightarrow> string \<Rightarrow> stream_state" where
  \<comment> \<open>one round of the loop in swap.py: its handlers catch every exception and go on
      to the next line (the progress print after the store can only raise after the
      result is stored)\<close>
  "process_line_swap loads st line0 =
     (let line = py_strip line0 in
      if line = [] then st
      else (case line_body loads st line of
              Inl e \<Rightarrow> st
            | Inr st' \<Rightarrow> st'))"

fun process_lines_final :: "decoder \<Rightarrow> stream_state \<Rightarrow> string list \<Rightarrow> py_error + stream_state" where
  "process_lines_final loads st [] = Inr st"
| "process_lines_final loads st (line # lines) =
     (case process_line_final loads st line of
        Inl e \<Rightarrow> Inl e
      | Inr st' \<Rightarrow> process_lines_final loads st' lines)"

fun process_lines_swap :: "decoder \<Rightarrow> stream_state \<Rightarrow> string list \<Rightarrow> stream_state" where
  "process_lines_swap loads st [] = st"
| "process_lines_swap loads st (line # lines) =
     process_lines_swap loads (process_line_swap loads st line) lines"

definition combine_tool :: "(json \<times> json) list \<Rightarrow> json \<Rightarrow> py_error + json" where
  \<comment> \<open>one round of the merge loop: \<open>{**tool_call, 'result': ..., 'state': ...}\<close>\<close>
  "combine_tool tool_results tool_call =
     (case tool_call of
        JDict fields \<Rightarrow>
          let tool_call_id = (case map_of fields ''toolCallId'' of Some v \<Rightarrow> v | None \<Rightarrow> JNull) in
          if \<not> hashable tool_call_id then Inl TypeError
          else (case results_get tool_results tool_call_id of
                  Some tool_result \<Rightarrow>
                    (case dict_get tool_result ''result'' (JDict []) of
                       Inl e \<Rightarrow> Inl e
                     | Inr result \<Rightarrow>
                         Inr (JDict (AList.update ''state'' (JStr ''completed'')
                                      (AList.update ''result'' result fields))))
                | None \<Rightarrow> Inr (JDict (AList.update ''state'' (JStr ''pending'') fields)))
      | _ \<Rightarrow> Inl AttributeError)"

fun combine_tools :: "(json \<times> json) list \<Rightarrow> json list \<Rightarrow> py_error + json list" where
  "combine_tools tool_results [] = Inr []"
| "combine_tools tool_results (tool_call # tool_calls) =
     (case combine_tool tool_results tool_call of
        Inl e \<Rightarrow> Inl e
      | Inr combined_tool \<Rightarrow>
          (case combine_tools tool_results tool_calls of
             Inl e \<Rightarrow> Inl e
           | Inr combined_tools \<Rightarrow> Inr (combined_tool # combined_tools)))"

record parsed_response =
  assistant_message :: "json option"
  content :: string
  tool_invocations :: "json list"

definition make_response :: "string \<Rightarrow> string \<Rightarrow> json list \<Rightarrow> parsed_response" where
  \<comment> \<open>the assistant message (when there is content or a tool) and the returned dict;
      \<open>uuid\<close> is the fresh \<open>uuid.uuid4()\<close>\<close>
  "make_response uuid assistant_content combined_tools =
     \<lparr> assistant_message =
         (if assistant_content \<noteq> [] \<or> combined_tools \<noteq> [] then
            Some (JDict [
              (''id'', JStr (''msg-'' @ uuid)),
              (''role'', JStr ''assistant''),
              (''content'', JStr assistant_content),
              (''parts'', JList [JDict [(''type'', JStr ''text''), (''text'', JStr assistant_content)]]),
              (''toolInvocations'', JList combined_tools),
              (''annotations'', JList [JDict [(''agentId'', JStr ''bitte-defi'')]])])
          else None),
       content = assistant_content,
       tool_invocations = combined_tools \<rparr>"

datatype final_response = ErrorResponse py_error | Response parsed_response

definition parse_streaming_response_final :: "decoder \<Rightarrow> string \<Rightarrow> string \<Rightarrow> final_response" where
  \<comment> \<open>final.py: any exception that leaves the loop or the merge is caught by the outer
      handler, which returns the dict with the one key \<open>error\<close>\<close>
  "parse_streaming_response_final loads uuid response_text =
     (let lines = split_lines (py_strip response_text) in
      case process_lines_final loads ([], [], []) lines of
        Inl e \<Rightarrow> ErrorResponse e
      | Inr (assistant_content, tool_calls, tool_results) \<Rightarrow>
          (case combine_tools tool_results tool_calls of
             Inl e \<Rightarrow> ErrorResponse e
           | Inr combined_tools \<Rightarrow> Response (make_response uuid assistant_content combined_tools)))"

definition parse_streaming_response_swap :: "decoder \<Rightarrow> string \<Rightarrow> string \<Rightarrow> py_error + parsed_response" where
  \<comment> \<open>swap.py: the merge runs outside any handler, so its exception is raised to the
      caller (\<open>Inl\<close>); the third key of the returned dict is \<open>toolInvocations\<close> there\<close>
  "parse_streaming_response_swap loads uuid response_text =
     (let lines = split_lines (py_strip response_text) in
      case process_lines_swap loads ([], [], []) lines of
        (assistant_content, tool_calls, tool_results) \<Rightarrow>
          (case combine_tools tool_results tool_calls of
             Inl e \<Rightarrow> Inl e
           | Inr combined_tools \<Rightarrow> Inr (make_response uuid assistant_content combined_tools)))"

section \<open>Twitter scoring (final.py; the same code in chatbot.py)\<close>

definition py_in :: "string \<Rightarrow> json \<Rightarrow> py_error + bool" where
  \<comment> \<open>\<open>key in x\<close>: a key of a dict, an element of a list, a substring of a str; any other
      value is not iterable\<close>
  "py_in key x =
     (case x of
        JDict d \<Rightarrow> Inr (key \<in> fst ` set d)
      | JList xs \<Rightarrow> Inr (JStr key \<in> set xs)
      | JStr s \<Rightarrow> Inr (contains s key)
      | _ \<Rightarrow> Inl TypeError)"

definition py_subscript :: "json \<Rightarrow> string \<Rightarrow> py_error + json" where
  \<comment> \<open>\<open>x[key]\<close> for a string key\<close>
  "py_subscript x key =
     (case x of
        JDict d \<Rightarrow> (case map_of d key of Some v \<Rightarrow> Inr v | None \<Rightarrow> Inl KeyError)
      | _ \<Rightarrow> Inl TypeError)"

definition py_isdigit :: "string \<Rightarrow> bool" where
  \<comment> \<open>\<open>s.isdigit()\<close>: not empty, and every character a decimal digit or one of the
      superscript digits (code points B2, B3, B9)\<close>
  "py_isdigit s \<longleftrightarrow> s \<noteq> [] \<and> (\<forall>c \<in> set s. is_decimal c \<or> c \<in> set [CHR 0xB2, CHR 0xB3, CHR 0xB9])"

definition int_of_digits :: "string \<Rightarrow> py_error + int" where
  \<comment> \<open>\<open>int(s)\<close> on a string that passed \<open>isdigit()\<close>: a superscript digit is no literal\<close>
  "int_of_digits s =
     (if \<forall>c \<in> set s. is_decimal c then py_int s
      else Inl (ValueError ''invalid literal for int() with base 10''))"

definition int_of_float :: "py_float \<Rightarrow> py_error + int" where
  \<comment> \<open>\<open>int(f)\<close>: truncation towards zero\<close>
  "int_of_float f =
     (case f of
        Finite r \<Rightarrow> Inr (if 0 \<le> r then \<lfloor>r\<rfloor> else \<lceil>r\<rceil>)
      | NaN \<Rightarrow> Inl (ValueError ''cannot convert float NaN to integer'')
      | _ \<Rightarrow> Inl OverflowError)"

definition strip_quotes :: "string \<Rightarrow> string" where
  \<comment> \<open>\<open>s.strip('"')\<close>\<close>
  "strip_quotes s =
     rev (dropWhile (\<lambda>c. c = CHR 0x22) (rev (dropWhile (\<lambda>c. c = CHR 0x22) s)))"

definition convert_score :: "int \<Rightarrow> json \<Rightarrow> py_error + int" where
  \<comment> \<open>the two \<open>isinstance\<close> branches on \<open>result_data\<close>; a bool is an int\<close>
  "convert_score score result_data =
     (case result_data of
        JStr s \<Rightarrow> if py_isdigit s then int_of_digits s else Inr score
      | JBool b \<Rightarrow> Inr (if b then 1 else 0)
      | JInt i \<Rightarrow> Inr i
      | JFloat f \<Rightarrow> int_of_float f
      | _ \<Rightarrow> Inr score)"

definition score_line_body :: "decoder \<Rightarrow> int \<Rightarrow> string \<Rightarrow> py_error + int" where
  \<comment> \<open>the body of the inner \<open>try\<close>, with every exception it can raise\<close>
  "score_line_body loads score line =
     (if startswith line ''a:'' then
        (case loads (drop 2 line) of
           Inl e \<Rightarrow> Inl e
         | Inr json_data \<Rightarrow>
             (case py_in ''result'' json_data of
                Inl e \<Rightarrow> Inl e
              | Inr False \<Rightarrow> Inr score
              | Inr True \<Rightarrow>
                  (case py_subscript json_data ''result'' of
                     Inl e \<Rightarrow> Inl e
                   | Inr result \<Rightarrow>
                       (case py_in ''data'' result of
                          Inl e \<Rightarrow> Inl e
                        | Inr False \<Rightarrow> Inr score
                        | Inr True \<Rightarrow>
                            (case py_subscript result ''data'' of
                               Inl e \<Rightarrow> Inl e
                             | Inr result_data \<Rightarrow> convert_score score result_data)))))
      else if startswith line ''0:'' then
        (let score_str = strip_quotes (drop 2 line) in
         if py_isdigit score_str then int_of_digits score_str else Inr score)
      else Inr score)"

fun caught_by_inner :: "py_error \<Rightarrow> bool" where
  \<comment> \<open>\<open>except (json.JSONDecodeError, KeyError, ValueError): continue\<close>\<close>
  "caught_by_inner JSONDecodeError = True"
| "caught_by_inner KeyError = True"
| "caught_by_inner (ValueError m) = True"
| "caught_by_inner e = False"

definition score_line :: "decoder \<Rightarrow> int \<Rightarrow> string \<Rightarrow> py_error + int" where
  "score_line loads score line =
     (case score_line_body loads score line of
        Inl e \<Rightarrow> if caught_by_inner e then Inr score else Inl e
      | Inr score' \<Rightarrow> Inr score')"

fun score_lines :: "decoder \<Rightarrow> int \<Rightarrow> string list \<Rightarrow> py_error + int" where
  "score_lines loads score [] = Inr score"
| "score_lines loads score (line # lines) =
     (case score_line loads score line of
        Inl e \<Rightarrow> Inl e
      | Inr score' \<Rightarrow> score_lines loads score' lines)"

text \<open>
  What the request brings back: an exception of the HTTP client (no connection, timeout),
  or a response with its status and its body, \<open>None\<close> when \<open>response.text()\<close> cannot
  decode it.
\<close>

datatype http_result = RequestError | HttpResponse nat "string option"

definition parse_twitter_scoring_response :: "decoder \<Rightarrow> string option \<Rightarrow> int" where
  "parse_twitter_scoring_response loads body =
     (case body of
        None \<Rightarrow> 1
      | Some text \<Rightarrow>
          (case score_lines loads 1 (split_lines (py_strip text)) of
             Inl e \<Rightarrow> 1
           | Inr score \<Rightarrow> score))"

definition analyze_twitter :: "decoder \<Rightarrow> http_result \<Rightarrow> int" where
  \<comment> \<open>the score of the returned dict \<open>{"score": ...}\<close>\<close>
  "analyze_twitter loads http =
     (case http of
        RequestError \<Rightarrow> 1
      | HttpResponse status body \<Rightarrow>
          if status \<noteq> 200 then 1 else parse_twitter_scoring_response loads body)"

section \<open>Conversation state\<close>

datatype user_state =
    WAITING_FOR_TWITTER_URL
  | WAITING_FOR_WALLET_ADDRESS
  | WAITING_FOR_SWAP_REQUEST
  | WAITING_FOR_SWAP_CONFIRMATION
  | WAITING_FOR_TOKEN_PREFERENCE
  | IDLE

text \<open>
  \<open>UserState\<close> of final.py has the two swap states, that of chatbot.py has
  \<open>WAITING_FOR_TOKEN_PREFERENCE\<close> instead.  The dict \<open>user_data[user_id]\<close> has the keys
  below, each present or not; \<open>prize_amount\<close> holds the score whose product with the
  float \<open>0.1\<close> the code stores.
\<close>

record session =
  twitter_url :: "string option"
  wallet_address :: "string option"
  score :: "int option"
  prize_amount :: "int option"
  pending_tool_invocations :: "json list option"
  session_id :: "string option"

definition empty_session :: session where
  "empty_session = \<lparr> twitter_url = None, wallet_address = None, score = None,
     prize_amount = None, pending_tool_invocations = None, session_id = None \<rparr>"

text \<open>
  The three per-user dicts of the bot.  \<open>chat_histories\<close> (final.py only) holds the messages
  sent to and received from the agent; \<open>start\<close> and \<open>reset_conversation\<close> empty it.
\<close>

record bot =
  user_states :: "int \<rightharpoonup> user_state"
  user_data :: "int \<rightharpoonup> session"
  chat_histories :: "int \<rightharpoonup> json list"

datatype reply =
    InvalidUrlPrompt
  | UrlReceived
  | InvalidWalletPrompt
  | Processing
  | ScoreMessage string string int
  | ProcessingAllocation
  | TransactionComplete int string
  | PreferenceError string
  | UseStart

text \<open>A handler returns the bot, the messages it sent and the exception it raised, if any.\<close>

type_synonym outcome = "bot \<times> reply list \<times> py_error option"

definition is_valid_twitter_url :: "string \<Rightarrow> bool" where
  "is_valid_twitter_url url \<longleftrightarrow>
     (\<exists>domain \<in> set [''twitter.com'', ''x.com'']. contains (py_lower url) domain)
     \<and> (startswith url ''http://'' \<or> startswith url ''https://'')"

definition is_valid_wallet_address :: "string \<Rightarrow> bool" where
  "is_valid_wallet_address address \<longleftrightarrow>
     length address = 42 \<and> startswith address ''0x''
     \<and> (\<forall>c \<in> set (drop 2 address). c \<in> set ''0123456789abcdefABCDEF'')"

definition handle_twitter_url :: "bot \<Rightarrow> string \<Rightarrow> int \<Rightarrow> outcome" where
  \<comment> \<open>the same in final.py and chatbot.py\<close>
  "handle_twitter_url b url user_id =
     (if \<not> is_valid_twitter_url url then (b, [InvalidUrlPrompt], None)
      else
        (case user_data b user_id of
           None \<Rightarrow> (b, [], Some KeyError)
         | Some d \<Rightarrow>
             (b\<lparr> user_data := (user_data b)(user_id \<mapsto> d\<lparr> twitter_url := Some url \<rparr>),
                 user_states := (user_states b)(user_id \<mapsto> WAITING_FOR_WALLET_ADDRESS) \<rparr>,
              [UrlReceived], None)))"

definition handle_wallet_address_final :: "decoder \<Rightarrow> http_result \<Rightarrow> bot \<Rightarrow> string \<Rightarrow> int \<Rightarrow> outcome" where
  \<comment> \<open>\<open>handle_wallet_address\<close> of final.py; \<open>http\<close> is what the scoring request brings back.
      The product \<open>result['score'] * 0.1\<close> is taken after the state is set and has no
      handler; a score it accepts has fewer than 4300 digits, so the message renders.\<close>
  "handle_wallet_address_final loads http b wallet user_id =
     (if \<not> is_valid_wallet_address (py_strip wallet) then (b, [InvalidWalletPrompt], None)
      else
        (case user_data b user_id of
           None \<Rightarrow> (b, [], Some KeyError)
         | Some d \<Rightarrow>
             let d1 = d\<lparr> wallet_address := Some (py_strip wallet) \<rparr>;
                 b1 = b\<lparr> user_data := (user_data b)(user_id \<mapsto> d1) \<rparr> in
             (case twitter_url d1 of
                None \<Rightarrow> (b1, [Processing], Some KeyError)
              | Some url \<Rightarrow>
                  let result = analyze_twitter loads http;
                      d2 = d1\<lparr> score := Some result \<rparr>;
                      b2 = b1\<lparr> user_data := (user_data b1)(user_id \<mapsto> d2),
                               user_states := (user_states b1)(user_id \<mapsto> WAITING_FOR_SWAP_REQUEST) \<rparr> in
                  if float_overflows result then (b2, [Processing], Some OverflowError)
                  else
                    let d3 = d2\<lparr> prize_amount := Some result \<rparr>;
                        b3 = b2\<lparr> user_data := (user_data b2)(user_id \<mapsto> d3) \<rparr> in
                    (b3, [Processing, ScoreMessage url wallet result], None))))"

definition handle_wallet_address :: "decoder \<Rightarrow> http_result \<Rightarrow> bot \<Rightarrow> string \<Rightarrow> int \<Rightarrow> outcome" where
  \<comment> \<open>chatbot.py: any address that is not blank is taken, as it was typed; the score
      message renders the score and the prize \<open>result['score'] * 10\<close> with no handler\<close>
  "handle_wallet_address loads http b wallet user_id =
     (if py_strip wallet = [] then (b, [InvalidWalletPrompt], None)
      else
        (case user_data b user_id of
           None \<Rightarrow> (b, [], Some KeyError)
         | Some d \<Rightarrow>
             let d1 = d\<lparr> wallet_address := Some wallet \<rparr>;
                 b1 = b\<lparr> user_data := (user_data b)(user_id \<mapsto> d1) \<rparr> in
             (case twitter_url d1 of
                None \<Rightarrow> (b1, [Processing], Some KeyError)
              | Some url \<Rightarrow>
                  let result = analyze_twitter loads http;
                      d2 = d1\<lparr> score := Some result \<rparr>;
                      b2 = b1\<lparr> user_data := (user_data b1)(user_id \<mapsto> d2),
                               user_states := (user_states b1)(user_id \<mapsto> WAITING_FOR_TOKEN_PREFERENCE) \<rparr>;
                      prize = result * 10 in
                  (case (py_str result, py_str prize) of
                     (Inr shown_score, Inr shown_prize) \<Rightarrow>
                       (b2, [Processing, ScoreMessage url wallet result], None)
                   | (Inl e, _) \<Rightarrow> (b2, [Processing], Some e)
                   | (_, Inl e) \<Rightarrow> (b2, [Processing], Some e)))))"

fun join :: "string \<Rightarrow> string list \<Rightarrow> string" where
  \<comment> \<open>\<open>sep.join(parts)\<close>\<close>
  "join sep [] = []"
| "join sep [x] = x"
| "join sep (x # y # ys) = x @ sep @ join sep (y # ys)"

definition format_token_allocation :: "(string \<times> int) list \<Rightarrow> string" where
  \<comment> \<open>the percentages of a parsed allocation lie between 0 and 100, so \<open>str\<close> renders them\<close>
  "format_token_allocation allocation =
     join '', '' (map (\<lambda>(token, percentage). str_int percentage @ ''% '' @ token) allocation)"

definition handle_token_preference :: "bot \<Rightarrow> string \<Rightarrow> int \<Rightarrow> outcome" where
  \<comment> \<open>chatbot.py: the handler catches \<open>ValueError\<close>, the one exception the parser raises
      (and the one \<open>str\<close> raises when the completion message renders the score and the
      prize \<open>score * 10\<close>); a missing key is raised to the caller\<close>
  "handle_token_preference b preference user_id =
     (case parse_token_preference preference of
        Inl (ValueError m) \<Rightarrow> (b, [PreferenceError m], None)
      | Inl e \<Rightarrow> (b, [], Some e)
      | Inr token_allocation \<Rightarrow>
          (case user_data b user_id of
             None \<Rightarrow> (b, [ProcessingAllocation], Some KeyError)
           | Some d \<Rightarrow>
               (case (twitter_url d, wallet_address d, score d) of
                  (Some url, Some wallet, Some sc) \<Rightarrow>
                    (case (py_str sc, py_str (sc * 10)) of
                       (Inr shown_score, Inr shown_prize) \<Rightarrow>
                         (b\<lparr> user_states := (user_states b)(user_id \<mapsto> IDLE),
                             user_data := (user_data b)(user_id := None) \<rparr>,
                          [ProcessingAllocation,
                           TransactionComplete sc (format_token_allocation token_allocation)],
                          None)
                     | (Inl (ValueError m), _) \<Rightarrow>
                         (b, [ProcessingAllocation, PreferenceError m], None)
                     | (_, Inl (ValueError m)) \<Rightarrow>
                         (b, [ProcessingAllocation, PreferenceError m], None)
                     | (Inl e, _) \<Rightarrow> (b, [ProcessingAllocation], Some e)
                     | (_, Inl e) \<Rightarrow> (b, [ProcessingAllocation], Some e))
                | _ \<Rightarrow> (b, [ProcessingAllocation], Some KeyError))))"

definition handle_message :: "decoder \<Rightarrow> http_result \<Rightarrow> bot \<Rightarrow> string \<Rightarrow> int \<Rightarrow> outcome" where
  \<comment> \<open>chatbot.py, for a message of a private chat (in a group the handler first drops the
      message or cuts the mention of the bot out of it)\<close>
  "handle_message loads http b user_message user_id =
     (let current_state = (case user_states b user_id of Some st \<Rightarrow> st | None \<Rightarrow> IDLE) in
      if current_state = WAITING_FOR_TWITTER_URL then handle_twitter_url b user_message user_id
      else if current_state = WAITING_FOR_WALLET_ADDRESS then
        handle_wallet_address loads http b user_message user_id
      else if current_state = WAITING_FOR_TOKEN_PREFERENCE then
        handle_token_preference b user_message user_id
      else (b, [UseStart], None))"

definition str_truthy :: "string option \<Rightarrow> bool" where
  \<comment> \<open>\<open>if x:\<close> for the result of \<open>d.get(key)\<close> on a string field\<close>
  "str_truthy x \<longleftrightarrow> (case x of Some s \<Rightarrow> s \<noteq> [] | None \<Rightarrow> False)"

definition cleanup_user_data :: "bot \<Rightarrow> int \<Rightarrow> bot" where
  "cleanup_user_data b user_id =
     (let b1 = b\<lparr> user_states := (user_states b)(user_id \<mapsto> IDLE) \<rparr> in
      case user_data b1 user_id of
        None \<Rightarrow> b1
      | Some d \<Rightarrow>
          let wallet = wallet_address d;
              sid = session_id d;
              d0 = empty_session;
              d1 = (if str_truthy wallet then d0\<lparr> wallet_address := wallet \<rparr> else d0);
              d2 = (if str_truthy sid then d1\<lparr> session_id := sid \<rparr> else d1) in
          b1\<lparr> user_data := (user_data b1)(user_id \<mapsto> d2) \<rparr>)"

section \<open>Notions the properties speak of\<close>

definition is_score :: "json \<Rightarrow> bool" where
  \<comment> \<open>the values of \<open>result.data\<close> the scan reads a score from: a digit string or a number\<close>
  "is_score v =
     (case v of
        JStr s \<Rightarrow> py_isdigit s
      | JBool b \<Rightarrow> True
      | JInt i \<Rightarrow> True
      | JFloat f \<Rightarrow> True
      | _ \<Rightarrow> False)"

definition carries_score :: "decoder \<Rightarrow> string \<Rightarrow> bool" where
  \<comment> \<open>a recognizable score line: an \<open>a:\<close> line whose payload decodes to a dict with a dict
      \<open>result\<close> whose \<open>data\<close> is a score, or a \<open>0:\<close> line whose payload, without its quotes,
      is a digit string\<close>
  "carries_score loads line \<longleftrightarrow>
     (startswith line ''a:'' \<and>
        (case loads (drop 2 line) of
           Inr (JDict d) \<Rightarrow>
             (case map_of d ''result'' of
                Some (JDict r) \<Rightarrow> (case map_of r ''data'' of Some v \<Rightarrow> is_score v | None \<Rightarrow> False)
              | _ \<Rightarrow> False)
         | _ \<Rightarrow> False))
     \<or> (startswith line ''0:'' \<and> py_isdigit (strip_quotes (drop 2 line)))"

definition all_space :: "string \<Rightarrow> bool" where
  \<comment> \<open>a text of whitespace only\<close>
  "all_space s \<longleftrightarrow> (\<forall>c \<in> set s. py_isspace c)"

definition core :: "string list \<Rightarrow> string list" where
  \<comment> \<open>the lines as the loops see them: stripped, the blank ones left out\<close>
  "core ls = filter (\<lambda>l. l \<noteq> []) (map py_strip ls)"

definition unrecognized :: "string \<Rightarrow> bool" where
  \<comment> \<open>a stripped line with none of the three prefixes\<close>
  "unrecognized l \<longleftrightarrow> \<not> (startswith l ''0:'' \<or> startswith l ''9:'' \<or> startswith l ''a:'')"

definition skipped_line_final :: "decoder \<Rightarrow> string \<Rightarrow> bool" where
  \<comment> \<open>a line, stripped, with an unrecognized prefix, or with a payload on which
      \<open>json.loads\<close> raises \<open>JSONDecodeError\<close>\<close>
  "skipped_line_final loads line \<longleftrightarrow>
     unrecognized (py_strip line) \<or> loads (drop 2 (py_strip line)) = Inl JSONDecodeError"

definition skipped_line_swap :: "decoder \<Rightarrow> string \<Rightarrow> bool" where
  \<comment> \<open>a line, stripped, with an unrecognized prefix, or with a payload on which
      \<open>json.loads\<close> raises any exception\<close>
  "skipped_line_swap loads line \<longleftrightarrow>
     unrecognized (py_strip line) \<or> (\<exists>e. loads (drop 2 (py_strip line)) = Inl e)"

definition no_text_line :: "string \<Rightarrow> bool" where
  \<comment> \<open>no line of the text, stripped, starts with \<open>0:\<close>\<close>
  "no_text_line text \<longleftrightarrow>
     (\<forall>l \<in> set (split_lines (py_strip text)). \<not> startswith (py_strip l) ''0:'')"

definition stream_lines :: "string \<Rightarrow> string list" where
  \<comment> \<open>the lines of a response body that the loop does not skip as blank, stripped\<close>
  "stream_lines text = core (split_lines (py_strip text))"

definition payloads :: "decoder \<Rightarrow> string \<Rightarrow> string list \<Rightarrow> json list" where
  \<comment> \<open>the decoded payloads of the lines with prefix \<open>p\<close>, in the order of the lines\<close>
  "payloads loads p ls =
     List.map_filter
       (\<lambda>l. if startswith l p
            then (case loads (drop 2 l) of Inr v \<Rightarrow> Some v | Inl e \<Rightarrow> None)
            else None) ls"

definition tool_calls_of :: "decoder \<Rightarrow> string \<Rightarrow> json list" where
  \<comment> \<open>the \<open>9:\<close> tool calls of a body in encounter order\<close>
  "tool_calls_of loads text = payloads loads ''9:'' (stream_lines text)"

definition tool_results_of :: "decoder \<Rightarrow> string \<Rightarrow> json list" where
  \<comment> \<open>the \<open>a:\<close> results of a body in encounter order\<close>
  "tool_results_of loads text = payloads loads ''a:'' (stream_lines text)"

definition call_id :: "json \<Rightarrow> json" where
  \<comment> \<open>the \<open>toolCallId\<close> a call or a result declares, \<open>None\<close> when it declares none\<close>
  "call_id v =
     (case v of
        JDict d \<Rightarrow> (case map_of d ''toolCallId'' of Some i \<Rightarrow> i | None \<Rightarrow> JNull)
      | _ \<Rightarrow> JNull)"

definition results_for :: "json list \<Rightarrow> json \<Rightarrow> json list" where
  \<comment> \<open>the results that declare a truthy identifier, the one of the call\<close>
  "results_for results tool_call =
     filter (\<lambda>r. py_truthy (call_id r) \<and> key_eq (call_id r) (call_id tool_call)) results"

definition result_field :: "json \<Rightarrow> json" where
  \<comment> \<open>the \<open>result\<close> field of a result, the empty dict when it has none\<close>
  "result_field r =
     (case r of
        JDict d \<Rightarrow> (case map_of d ''result'' of Some v \<Rightarrow> v | None \<Rightarrow> JDict [])
      | _ \<Rightarrow> JDict [])"

definition merged_call :: "json list \<Rightarrow> json \<Rightarrow> json" where
  \<comment> \<open>the merged invocation of a call, given the results for it: pending without one,
      completed with the \<open>result\<close> field of the last one otherwise\<close>
  "merged_call rs tool_call =
     (case tool_call of
        JDict kvs \<Rightarrow>
          if rs = [] then JDict (AList.update ''state'' (JStr ''pending'') kvs)
          else JDict (AList.update ''state'' (JStr ''completed'')
                       (AList.update ''result'' (result_field (last rs)) kvs))
      | _ \<Rightarrow> tool_call)"

definition latest :: "json list \<Rightarrow> json \<Rightarrow> json option \<Rightarrow> json option" where
  \<comment> \<open>what a lookup of \<open>q\<close> finds after the results \<open>rs\<close> were stored, \<open>old\<close> being what it
      found before\<close>
  "latest rs q old =
     (let xs = filter (\<lambda>r. py_truthy (call_id r) \<and> key_eq (call_id r) q) rs in
      if xs = [] then old else Some (last xs))"

definition stored_wallets_valid :: "bot \<Rightarrow> bool" where
  \<comment> \<open>every wallet address a session of final.py holds has passed the validation\<close>
  "stored_wallets_valid b \<longleftrightarrow>
     (\<forall>u d w. user_data b u = Some d \<and> wallet_address d = Some w \<longrightarrow> is_valid_wallet_address w)"

section \<open>Concrete inputs for the examples\<close>

text \<open>
  \<open>json.loads\<close> on the payloads the examples below decode: every payload they hand to
  the decoder is in the table or is no JSON text, for which it raises \<open>JSONDecodeError\<close>.
\<close>

definition example_table :: "(string \<times> json) list" where
  \<open>example_table = [
     (''"hello"'', JStr ''hello''),
     (''"7"'', JStr ''7''),
     (''5'', JInt 5),
     (''{"finishReason":"stop"}'', JDict [(''finishReason'', JStr ''stop'')]),
     (''{"messageId":"m"}'', JDict [(''messageId'', JStr ''m'')]),
     (''{"toolCallId":""}'', JDict [(''toolCallId'', JStr [])]),
     (''{"toolCallId":"","result":1}'', JDict [(''toolCallId'', JStr []), (''result'', JInt 1)]),
     (''{"toolCallId":"x","toolName":"swap"}'',
        JDict [(''toolCallId'', JStr ''x''), (''toolName'', JStr ''swap'')]),
     (''{"toolCallId":"y","toolName":"generate-evm-tx"}'',
        JDict [(''toolCallId'', JStr ''y''), (''toolName'', JStr ''generate-evm-tx'')]),
     (''{"toolCallId":"x","result":{"data":7}}'',
        JDict [(''toolCallId'', JStr ''x''), (''result'', JDict [(''data'', JInt 7)])])]\<close>

definition example_loads :: decoder where
  "example_loads s =
     (case map_of example_table s of Some v \<Rightarrow> Inr v | None \<Rightarrow> Inl JSONDecodeError)"

definition example_session :: session where
  "example_session = empty_session\<lparr> twitter_url := Some ''https://x.com/a/status/1'' \<rparr>"

definition example_bot :: bot where
  "example_bot = \<lparr> user_states = [1 \<mapsto> WAITING_FOR_WALLET_ADDRESS],
                   user_data = [1 \<mapsto> example_session],
                   chat_histories = [1 \<mapsto> []] \<rparr>"

definition example_wallet :: string where
  "example_wallet = ''0x52908400098527886E0F7030069857D2E4169EE7''"

definition cleanup_example :: bot where
  "cleanup_example = \<lparr> user_states = [1 \<mapsto> WAITING_FOR_SWAP_CONFIRMATION],
     user_data = [1 \<mapsto> \<lparr> twitter_url = Some ''https://x.com/a/status/1'',
        wallet_address = Some example_wallet, score = Some 7, prize_amount = Some 7,
        pending_tool_invocations = Some [], session_id = Some ''3f2b'' \<rparr>],
     chat_histories = [1 \<mapsto> [JDict [(''role'', JStr ''user''), (''content'', JStr ''swap all to ETH'')]]] \<rparr>"

definition long_digits :: string where
  \<comment> \<open>the percentage 40 written with 4301 digits\<close>
  "long_digits = replicate 4299 CHR ''0'' @ ''40''"

definition deep_brackets :: string where
  \<comment> \<open>a payload that is no JSON and nests 2000 deep\<close>
  "deep_brackets = replicate 2000 (CHR 0x5B)"

definition example_loads_deep :: decoder where
  \<comment> \<open>\<open>json.loads\<close> raises \<open>RecursionError\<close> on the 2000 opening brackets\<close>
  "example_loads_deep s = (if s = deep_brackets then Inl RecursionError else example_loads s)"

lemma startswith_length: "startswith s p \<Longrightarrow> length p \<le> length s"
  unfolding startswith_def by (metis length_take min.cobounded1)

lemma match_symbol_shorter: "match_symbol s = Some (tok, rest) \<Longrightarrow> length rest < length s"
  by (auto simp: match_symbol_def split: if_splits dest!: startswith_length)

lemma match_percentage_shorter:
  assumes "match_percentage s = Some (m, rest)"
  shows "length rest < length s"
proof -
  define r1 where "r1 = dropWhile is_decimal s"
  define r2 where "r2 = (case r1 of c # cs \<Rightarrow> if c = CHR ''%'' then cs else r1 | [] \<Rightarrow> r1)"
  define r3 where "r3 = dropWhile py_isspace r2"
  have "length r1 \<le> length s"
    by (simp add: r1_def length_dropWhile_le)
  moreover have "length r2 \<le> length r1"
    by (simp add: r2_def split: list.splits)
  moreover have "length r3 \<le> length r2"
    by (simp add: r3_def length_dropWhile_le)
  moreover from assms have "\<exists>tok. match_symbol r3 = Some (tok, rest)"
    unfolding match_percentage_def Let_def r1_def r2_def r3_def
    by (auto split: if_splits option.splits)
  then have "length rest < length r3"
    by (auto dest: match_symbol_shorter)
  ultimately show ?thesis by linarith
qed

lemma match_simple_shorter:
  assumes "match_simple s = Some (m, rest)"
  shows "length rest < length s"
proof -
  from assms obtain tok r1 where r1: "match_symbol s = Some (tok, r1)"
    and rest: "rest = dropWhile is_decimal (dropWhile py_isspace r1)"
    unfolding match_simple_def Let_def
    by (auto split: if_splits option.splits)
  have "length rest \<le> length r1"
    unfolding rest by (meson length_dropWhile_le order_trans)
  with match_symbol_shorter [OF r1] show ?thesis by linarith
qed

text \<open>Both patterns consume at least one character, so the scan always goes on behind a match.\<close>

lemma findall_percentage_step:
  "match_percentage (c # cs) = Some (m, rest) \<Longrightarrow>
     findall match_percentage (c # cs) = m # findall match_percentage rest"
  using match_percentage_shorter [of "c # cs" m rest] by simp

lemma findall_simple_step:
  "match_simple (c # cs) = Some (m, rest) \<Longrightarrow>
     findall match_simple (c # cs) = m # findall match_simple rest"
  using match_simple_shorter [of "c # cs" m rest] by simp

section \<open>Lines and whitespace\<close>

lemma strip_Nil: "py_strip [] = []"
  by (simp add: py_strip_def)

lemma strip_all_space: "all_space s \<Longrightarrow> py_strip s = []"
proof -
  assume "all_space s"
  then show ?thesis by (auto simp: py_strip_def all_space_def dest: set_dropWhileD)
qed

lemma strip_space_prefix: "all_space a \<Longrightarrow> py_strip (a @ s) = py_strip s"
  by (simp add: py_strip_def all_space_def)

lemma strip_space_suffix:
  assumes "all_space b"
  shows "py_strip (s @ b) = py_strip s"
proof (cases "all_space s")
  case True
  with assms have "all_space (s @ b)" by (auto simp: all_space_def)
  with True show ?thesis by (simp add: strip_all_space)
next
  case False
  then have "dropWhile py_isspace (s @ b) = dropWhile py_isspace s @ b"
    by (auto simp: all_space_def)
  moreover have "dropWhile py_isspace (rev b @ xs) = dropWhile py_isspace xs" for xs
    by (rule dropWhile_append2) (use assms in \<open>auto simp: all_space_def\<close>)
  ultimately show ?thesis by (simp add: py_strip_def)
qed

lemma strip_core:
  assumes "t \<noteq> []" "\<not> py_isspace (hd t)" "\<not> py_isspace (last t)"
  shows "py_strip t = t"
proof -
  from assms have 1: "dropWhile py_isspace t = t"
    by (simp add: dropWhile_eq_self_iff)
  from assms have "hd (rev t) = last t" "rev t \<noteq> []"
    by (simp_all add: hd_rev)
  with assms have "dropWhile py_isspace (rev t) = rev t"
    by (simp add: dropWhile_eq_self_iff)
  with 1 show ?thesis by (simp add: py_strip_def)
qed

lemma strip_decomp:
  "all_space s \<or> (\<exists>a b. s = a @ py_strip s @ b \<and> all_space a \<and> all_space b
      \<and> py_strip s \<noteq> [] \<and> \<not> py_isspace (hd (py_strip s)) \<and> \<not> py_isspace (last (py_strip s)))"
proof (cases "all_space s")
  case True
  then show ?thesis by simp
next
  case False
  define a where "a = takeWhile py_isspace s"
  define u where "u = dropWhile py_isspace s"
  define b where "b = rev (takeWhile py_isspace (rev u))"
  define t where "t = rev (dropWhile py_isspace (rev u))"
  have s: "s = a @ u" by (simp add: a_def u_def)
  have u: "u = t @ b"
    unfolding t_def b_def by (metis rev_append rev_rev_ident takeWhile_dropWhile_id)
  have t: "py_strip s = t" by (simp add: py_strip_def t_def u_def)
  from False have une: "u \<noteq> []" by (auto simp: u_def all_space_def)
  then have hdu: "\<not> py_isspace (hd u)"
    unfolding u_def by (metis hd_dropWhile)
  have tne: "t \<noteq> []"
  proof
    assume "t = []"
    then have "\<forall>c \<in> set (rev u). py_isspace c" by (simp add: t_def)
    with une hdu show False by (cases u) auto
  qed
  then have "\<not> py_isspace (hd (dropWhile py_isspace (rev u)))"
    unfolding t_def by (metis hd_dropWhile rev_is_Nil_conv)
  then have last: "\<not> py_isspace (last t)"
    using tne unfolding t_def by (simp add: last_rev)
  from tne u have "hd t = hd u" by simp
  with hdu have hd: "\<not> py_isspace (hd t)" by simp
  have "all_space a" by (auto simp: a_def all_space_def dest: set_takeWhileD)
  moreover have "all_space b" by (auto simp: b_def all_space_def dest: set_takeWhileD)
  ultimately show ?thesis using s u t tne hd last by auto
qed

lemma strip_idem: "py_strip (py_strip s) = py_strip s"
  using strip_decomp [of s] by (auto simp: strip_all_space strip_core strip_Nil)

lemma split_lines_ne: "split_lines s \<noteq> []"
  by (induction s) (auto split: list.splits)

lemma split_lines_line: "CHR 0x0A \<notin> set l \<Longrightarrow> split_lines l = [l]"
  by (induction l) auto

lemma split_lines_break:
  "CHR 0x0A \<notin> set l \<Longrightarrow> split_lines (l @ CHR 0x0A # r) = l # split_lines r"
  by (induction l) auto

lemma split_lines_join:
  "ls \<noteq> [] \<Longrightarrow> \<forall>l \<in> set ls. CHR 0x0A \<notin> set l \<Longrightarrow> split_lines (join [CHR 0x0A] ls) = ls"
  by (induction "[CHR 0x0A]" ls rule: join.induct) (auto simp: split_lines_line split_lines_break)

lemma split_lines_append:
  "split_lines (s @ t) =
     butlast (split_lines s) @ [last (split_lines s) @ hd (split_lines t)] @ tl (split_lines t)"
proof (induction s)
  case Nil
  then show ?case using split_lines_ne [of t] by (cases "split_lines t") auto
next
  case (Cons c s)
  show ?case
  proof (cases "c = CHR 0x0A")
    case True
    then show ?thesis using Cons split_lines_ne [of s] by simp
  next
    case False
    then show ?thesis using Cons split_lines_ne [of s] split_lines_ne [of t]
      by (cases "split_lines s"; cases "split_lines t") (auto split: list.splits)
  qed
qed

lemma split_lines_chars: "l \<in> set (split_lines s) \<Longrightarrow> set l \<subseteq> set s"
proof (induction s arbitrary: l)
  case Nil
  then show ?case by simp
next
  case (Cons c s)
  show ?case
  proof (cases "c = CHR 0x0A")
    case True
    with Cons show ?thesis by auto
  next
    case False
    obtain l0 ls where sp: "split_lines s = l0 # ls"
      using split_lines_ne [of s] by (cases "split_lines s") auto
    with False Cons.prems have "l = c # l0 \<or> l \<in> set ls" by simp
    then show ?thesis
    proof
      assume "l = c # l0"
      moreover have "set l0 \<subseteq> set s" by (rule Cons.IH) (simp add: sp)
      ultimately show ?thesis by auto
    next
      assume "l \<in> set ls"
      then have "set l \<subseteq> set s" by (intro Cons.IH) (simp add: sp)
      then show ?thesis by auto
    qed
  qed
qed

lemma core_space_lines: "all_space s \<Longrightarrow> core (split_lines s) = []"
proof -
  assume a: "all_space s"
  have "py_strip l = []" if "l \<in> set (split_lines s)" for l
    using split_lines_chars [OF that] a by (intro strip_all_space) (auto simp: all_space_def)
  then show ?thesis by (auto simp: core_def filter_empty_conv)
qed

lemma core_append: "core (xs @ ys) = core xs @ core ys"
  by (simp add: core_def)

lemma core_space_prefix:
  assumes "all_space a"
  shows "core (split_lines (a @ s)) = core (split_lines s)"
proof -
  have b: "core (butlast (split_lines a)) = []"
    using core_space_lines [OF assms] split_lines_ne [of a]
    by (metis append_butlast_last_id core_append append_is_Nil_conv)
  have "all_space (last (split_lines a))"
    using split_lines_chars [of "last (split_lines a)" a] split_lines_ne [of a] assms
    by (auto simp: all_space_def)
  then have l: "py_strip (last (split_lines a) @ hd (split_lines s)) = py_strip (hd (split_lines s))"
    by (rule strip_space_prefix)
  have "core (split_lines (a @ s)) = core ([hd (split_lines s)] @ tl (split_lines s))"
    unfolding split_lines_append core_append b using l by (simp add: core_def)
  then show ?thesis using split_lines_ne [of s] by simp
qed

lemma core_space_suffix:
  assumes "all_space b"
  shows "core (split_lines (s @ b)) = core (split_lines s)"
proof -
  have sb: "split_lines b = hd (split_lines b) # tl (split_lines b)"
    using split_lines_ne [of b] by simp
  have "core (split_lines b) = []" by (rule core_space_lines [OF assms])
  with sb have t: "core (tl (split_lines b)) = []"
    by (metis append_Cons append_Nil core_append append_is_Nil_conv)
  have "all_space (hd (split_lines b))"
    using split_lines_chars [of "hd (split_lines b)" b] split_lines_ne [of b] assms
    by (auto simp: all_space_def)
  then have l: "py_strip (last (split_lines s) @ hd (split_lines b)) = py_strip (last (split_lines s))"
    by (rule strip_space_suffix)
  have "core (split_lines (s @ b)) = core (butlast (split_lines s) @ [last (split_lines s)])"
    unfolding split_lines_append core_append t using l by (simp add: core_def)
  then show ?thesis using split_lines_ne [of s] by simp
qed

lemma core_strip: "core (split_lines (py_strip s)) = core (split_lines s)"
proof -
  from strip_decomp [of s] show ?thesis
  proof
    assume "all_space s"
    then show ?thesis
      by (simp add: strip_all_space strip_Nil core_def core_space_lines [unfolded core_def])
  next
    assume "\<exists>a b. s = a @ py_strip s @ b \<and> all_space a \<and> all_space b
      \<and> py_strip s \<noteq> [] \<and> \<not> py_isspace (hd (py_strip s)) \<and> \<not> py_isspace (last (py_strip s))"
    then obtain a b where s: "s = a @ py_strip s @ b" and a: "all_space a" and b: "all_space b"
      by blast
    have "core (split_lines s) = core (split_lines (a @ py_strip s @ b))"
      using s by simp
    also have "\<dots> = core (split_lines (py_strip s))"
      by (simp only: core_space_prefix [OF a] core_space_suffix [OF b])
    finally show ?thesis by simp
  qed
qed

lemma core_single: "core [l] = (if py_strip l = [] then [] else [py_strip l])"
  by (simp add: core_def)

lemma core_Cons: "core (l # ls) = core [l] @ core ls"
  by (simp add: core_def)

section \<open>The token preference parser\<close>

lemma sum_update_None:
  "map_of al k = None \<Longrightarrow> sum_list (map snd (AList.update k v al)) = sum_list (map snd al) + (v::int)"
  by (induction al) (auto split: if_splits)

lemma sum_update_Some:
  "map_of al k = Some w \<Longrightarrow> sum_list (map snd (AList.update k v al)) = sum_list (map snd al) - w + (v::int)"
  by (induction al) (auto split: if_splits)

lemma sum_dict_add: "sum_list (map snd (dict_add k v d)) = sum_list (map snd d) + v"
  by (auto simp: dict_add_def sum_update_None sum_update_Some split: option.splits)

lemma map_of_dict_add:
  "map_of (dict_add k v d) = (map_of d)(k \<mapsto> (case map_of d k of Some w \<Rightarrow> w + v | None \<Rightarrow> v))"
  by (auto simp: dict_add_def update_conv' split: option.splits)

lemma distinct_dict_add: "distinct (map fst d) \<Longrightarrow> distinct (map fst (dict_add k v d))"
  by (auto simp: dict_add_def distinct_update split: option.splits)

lemma add_matches_values:
  "sum_list (map snd (add_matches ms d)) = sum_list (map snd d) + matched_total ms"
  by (induction ms d rule: add_matches.induct) (auto simp: matched_total_def sum_dict_add)

lemma add_matches_distinct:
  "distinct (map fst d) \<Longrightarrow> distinct (map fst (add_matches ms d))"
  by (induction ms d rule: add_matches.induct) (auto simp: distinct_dict_add)

lemma add_matches_lookup:
  "map_of (add_matches ms d) k =
     (if k \<in> snd ` set ms \<or> k \<in> dom (map_of d)
      then Some ((case map_of d k of Some w \<Rightarrow> w | None \<Rightarrow> 0) + matched_share ms k)
      else None)"
proof (induction ms arbitrary: d)
  case Nil
  then show ?case by (auto simp: matched_share_def matched_total_def)
next
  case (Cons m ms)
  obtain p tk where m: "m = (p, tk)" by (cases m)
  show ?case
    unfolding m
    by (simp add: Cons.IH map_of_dict_add matched_share_def matched_total_def
        split: option.splits) (auto simp: dom_def)
qed

lemma sum_matches_within:
  "within_int_limit ms \<Longrightarrow>
     sum_matches ms (d, t) = Inr (add_matches ms d, t + matched_total ms)"
proof (induction ms arbitrary: d t)
  case Nil
  then show ?case by (simp add: matched_total_def)
next
  case (Cons m ms)
  obtain p tk where m: "m = (p, tk)" by (cases m)
  from Cons.prems have p: "length p \<le> 4300" and w: "within_int_limit ms"
    by (simp_all add: within_int_limit_def m)
  from p have "py_int p = Inr (digits_value p)" by (simp add: py_int_def)
  with Cons.IH [OF w] show ?case
    by (simp add: m matched_total_def)
qed

lemma sum_matches_beyond:
  "\<not> within_int_limit ms \<Longrightarrow>
     \<exists>n. 4300 < n \<and> sum_matches ms (d, t) = Inl (ValueError (int_limit_message n))"
proof (induction ms arbitrary: d t)
  case Nil
  then show ?case by (simp add: within_int_limit_def)
next
  case (Cons m ms)
  obtain p tk where m: "m = (p, tk)" by (cases m)
  show ?case
  proof (cases "4300 < length p")
    case True
    then show ?thesis by (auto simp: m py_int_def)
  next
    case False
    with Cons.prems have "\<not> within_int_limit ms"
      by (simp add: within_int_limit_def m)
    from Cons.IH [OF this] False show ?thesis
      by (simp add: m py_int_def)
  qed
qed

lemma bare_no_matches:
  "preference \<in> set [''NATIVE'', ''USDC'', ''ETH''] \<Longrightarrow> find_matches preference = []"
  by (auto simp: find_matches_def match_percentage_def match_simple_def match_symbol_def
      startswith_def is_decimal_def py_isspace_def)

lemma parse_cases:
  assumes "within_int_limit (find_matches (py_strip (py_upper s)))"
  shows "parse_token_preference s =
     (let preference = py_strip (py_upper s); ms = find_matches preference;
          d = add_matches ms []; T = matched_total ms in
      if preference \<in> set [''NATIVE'', ''USDC'', ''ETH''] then Inr [(preference, 100)]
      else if ms = [] then Inl (ValueError could_not_parse)
      else if T > 100 then
        (case py_str T of Inl e \<Rightarrow> Inl e | Inr shown \<Rightarrow> Inl (ValueError (exceeds_message T)))
      else if T < 100 then Inr (dict_add ''NATIVE'' (100 - T) d)
      else Inr d)"
  unfolding parse_token_preference_def Let_def
  by (simp add: sum_matches_within [OF assms] del: set_simps)

lemma parse_beyond_limit:
  assumes "\<not> within_int_limit (find_matches (py_strip (py_upper s)))"
  shows "\<exists>n. 4300 < n \<and> parse_token_preference s = Inl (ValueError (int_limit_message n))"
proof -
  define ms where "ms = find_matches (py_strip (py_upper s))"
  from assms have ne: "ms \<noteq> []"
    by (auto simp: ms_def within_int_limit_def)
  have nb: "py_strip (py_upper s) \<notin> set [''NATIVE'', ''USDC'', ''ETH'']"
    using bare_no_matches [of "py_strip (py_upper s)"] ne unfolding ms_def by blast
  from sum_matches_beyond [OF assms, of "[]" 0] obtain n
    where n: "4300 < n"
      and sm: "sum_matches (find_matches (py_strip (py_upper s))) ([], 0)
                 = Inl (ValueError (int_limit_message n))"
    by blast
  have "parse_token_preference s = Inl (ValueError (int_limit_message n))"
    unfolding parse_token_preference_def Let_def using nb ne sm
    by (simp add: ms_def del: set_simps)
  with n show ?thesis by blast
qed

text \<open>
  Claim C3.  Whenever the token preference parser returns an allocation, for the bare
  symbol as for any composition of percentages, the percentages of the allocation add up
  to exactly 100.
\<close>

theorem allocation_sums_to_100:
  assumes "parse_token_preference s = Inr alloc"
  shows "sum_list (map snd alloc) = 100"
proof (cases "within_int_limit (find_matches (py_strip (py_upper s)))")
  case True
  from assms show ?thesis
    unfolding parse_cases [OF True] Let_def
    by (auto simp: sum_dict_add add_matches_values split: if_splits sum.splits)
next
  case False
  from parse_beyond_limit [OF False] assms show ?thesis by auto
qed

theorem allocation_sums_to_100_witness:
  "parse_token_preference ''40% USDC'' = Inr [(''USDC'', 40), (''NATIVE'', 60)]
   \<and> sum_list (map snd [(''USDC'', 40), (''NATIVE'', 60 :: int)]) = 100"
proof -
  have h: "parse_token_preference ''40% USDC'' = Inr [(''USDC'', 40), (''NATIVE'', 60)]"
    by code_simp
  from allocation_sums_to_100 [OF h] h show ?thesis by simp
qed

text \<open>
  Claim C4, as amended.  When the matched pairs, none of more than 4300 digits, total
  \<open>T < 100\<close>, the parser returns an allocation in which every symbol other than NATIVE
  has the sum of the percentages matched for it, and NATIVE has \<open>100 - T\<close> plus the sum of
  the percentages matched for NATIVE itself; \<open>40% USDC\<close> gives USDC 40 and NATIVE 60.
\<close>

theorem shortfall_goes_to_native:
  "(let ms = find_matches (py_strip (py_upper s)); T = matched_total ms in
    ms \<noteq> [] \<and> within_int_limit ms \<and> T < 100 \<longrightarrow>
      (\<exists>alloc. parse_token_preference s = Inr alloc
        \<and> distinct (map fst alloc)
        \<and> map_of alloc ''NATIVE'' = Some (100 - T + matched_share ms ''NATIVE'')
        \<and> (\<forall>token. token \<noteq> ''NATIVE'' \<longrightarrow>
              map_of alloc token =
                (if token \<in> snd ` set ms then Some (matched_share ms token) else None))))
   \<and> parse_token_preference ''40% USDC'' = Inr [(''USDC'', 40), (''NATIVE'', 60)]"
proof -
  have ex: "parse_token_preference ''40% USDC'' = Inr [(''USDC'', 40), (''NATIVE'', 60)]"
    by code_simp
  define ms where "ms = find_matches (py_strip (py_upper s))"
  define T where "T = matched_total ms"
  define d where "d = add_matches ms []"
  have main: "\<exists>alloc. parse_token_preference s = Inr alloc
        \<and> distinct (map fst alloc)
        \<and> map_of alloc ''NATIVE'' = Some (100 - T + matched_share ms ''NATIVE'')
        \<and> (\<forall>token. token \<noteq> ''NATIVE'' \<longrightarrow>
              map_of alloc token =
                (if token \<in> snd ` set ms then Some (matched_share ms token) else None))"
    if ne: "ms \<noteq> []" and w: "within_int_limit ms" and lt: "T < 100"
  proof -
    have nb: "py_strip (py_upper s) \<notin> set [''NATIVE'', ''USDC'', ''ETH'']"
      using bare_no_matches [of "py_strip (py_upper s)"] ne unfolding ms_def by blast
    have p: "parse_token_preference s = Inr (dict_add ''NATIVE'' (100 - T) d)"
      unfolding parse_cases [OF w [unfolded ms_def]] Let_def using nb ne lt
      by (simp add: ms_def [symmetric] T_def [symmetric] d_def [symmetric] del: set_simps)
    have dd: "distinct (map fst (dict_add ''NATIVE'' (100 - T) d))"
      unfolding d_def by (intro distinct_dict_add add_matches_distinct) simp
    have look: "map_of d k = (if k \<in> snd ` set ms then Some (matched_share ms k) else None)" for k
      unfolding d_def by (simp add: add_matches_lookup)
    have n: "map_of (dict_add ''NATIVE'' (100 - T) d) ''NATIVE''
               = Some (100 - T + matched_share ms ''NATIVE'')"
    proof (cases "''NATIVE'' \<in> snd ` set ms")
      case True
      then show ?thesis by (simp add: map_of_dict_add look)
    next
      case False
      then have "filter (\<lambda>m. snd m = ''NATIVE'') ms = []"
        by (force simp: filter_empty_conv)
      then have "matched_share ms ''NATIVE'' = 0"
        by (simp add: matched_share_def matched_total_def)
      with False show ?thesis by (simp add: map_of_dict_add look)
    qed
    have o: "map_of (dict_add ''NATIVE'' (100 - T) d) token
               = (if token \<in> snd ` set ms then Some (matched_share ms token) else None)"
      if "token \<noteq> ''NATIVE''" for token
      using that by (simp add: map_of_dict_add look)
    from p dd n o show ?thesis by blast
  qed
  show ?thesis
    unfolding Let_def using main ex unfolding T_def ms_def by blast
qed

theorem shortfall_goes_to_native_witness:
  "find_matches (py_strip (py_upper ''30% usdc, 10% native and 5% USDC''))
      = [(''30'', ''USDC''), (''10'', ''NATIVE''), (''5'', ''USDC'')]
   \<and> within_int_limit [(''30'', ''USDC''), (''10'', ''NATIVE''), (''5'', ''USDC'')]
   \<and> matched_total [(''30'', ''USDC''), (''10'', ''NATIVE''), (''5'', ''USDC'')] = 45
   \<and> (\<exists>alloc. parse_token_preference ''30% usdc, 10% native and 5% USDC'' = Inr alloc
         \<and> map_of alloc ''NATIVE'' = Some 65 \<and> map_of alloc ''USDC'' = Some 35
         \<and> map_of alloc ''ETH'' = None)"
proof -
  have ms: "find_matches (py_strip (py_upper ''30% usdc, 10% native and 5% USDC''))
      = [(''30'', ''USDC''), (''10'', ''NATIVE''), (''5'', ''USDC'')]"
    by code_simp
  have w: "within_int_limit [(''30'', ''USDC''), (''10'', ''NATIVE''), (''5'', ''USDC'')]"
    by (simp add: within_int_limit_def)
  have T: "matched_total [(''30'', ''USDC''), (''10'', ''NATIVE''), (''5'', ''USDC'')] = 45"
    by code_simp
  have n: "matched_share [(''30'', ''USDC''), (''10'', ''NATIVE''), (''5'', ''USDC'')] ''NATIVE'' = 10"
    by code_simp
  have u: "matched_share [(''30'', ''USDC''), (''10'', ''NATIVE''), (''5'', ''USDC'')] ''USDC'' = 35"
    by code_simp
  from shortfall_goes_to_native [of "''30% usdc, 10% native and 5% USDC''"] w
  obtain alloc where a: "parse_token_preference ''30% usdc, 10% native and 5% USDC'' = Inr alloc"
    and 1: "map_of alloc ''NATIVE'' = Some 65"
    and 2: "\<forall>token. token \<noteq> ''NATIVE'' \<longrightarrow> map_of alloc token =
       (if token \<in> snd ` set [(''30'', ''USDC''), (''10'', ''NATIVE''), (''5'', ''USDC'')]
        then Some (matched_share [(''30'', ''USDC''), (''10'', ''NATIVE''), (''5'', ''USDC'')] token)
        else None)"
    unfolding Let_def ms T n by auto
  from 2 have "map_of alloc ''USDC'' = Some 35" "map_of alloc ''ETH'' = None"
    by (simp_all add: u)
  with ms w T a 1 show ?thesis by blast
qed

text \<open>The text of 4299 zeros followed by \<open>40% USDC\<close>: one matched pair, of 4301 digits.\<close>

lemma long_digits_length: "length long_digits = 4301"
  by (simp add: long_digits_def)

lemma long_digits_decimal: "c \<in> set long_digits \<Longrightarrow> is_decimal c"
  by (auto simp: long_digits_def is_decimal_def)

lemma long_digits_hd: "long_digits = CHR ''0'' # tl long_digits"
proof -
  have "(4299::nat) = Suc 4298" by simp
  then have "replicate 4299 CHR ''0'' = CHR ''0'' # replicate 4298 CHR ''0''"
    by (simp only: replicate_Suc)
  then show ?thesis by (simp add: long_digits_def)
qed

lemma digits_value_zeros:
  "foldl (\<lambda>acc c. 10 * acc + digit_value c) 0 (replicate n CHR ''0'' @ s)
     = foldl (\<lambda>acc c. 10 * acc + digit_value c) 0 s"
  by (induction n) (simp_all add: digit_value_def)

lemma long_digits_value: "digits_value long_digits = 40"
  unfolding long_digits_def digits_value_def digits_value_zeros
  by (simp add: digit_value_def)

lemma upper_decimal: "is_decimal c \<Longrightarrow> upper_char c = [c]"
  by (auto simp: is_decimal_def upper_char_def)

lemma py_upper_decimal: "(\<And>c. c \<in> set s \<Longrightarrow> is_decimal c) \<Longrightarrow> py_upper s = s"
  by (induction s) (simp_all add: py_upper_def upper_decimal)

lemma py_upper_append: "py_upper (a @ b) = py_upper a @ py_upper b"
  by (simp add: py_upper_def)

lemma long_example_upper: "py_upper (long_digits @ ''% USDC'') = long_digits @ ''% USDC''"
proof -
  have "py_upper ''% USDC'' = ''% USDC''" by code_simp
  then show ?thesis
    by (simp add: py_upper_append py_upper_decimal long_digits_decimal)
qed

lemma long_example_strip: "py_strip (long_digits @ ''% USDC'') = long_digits @ ''% USDC''"
proof (rule strip_core)
  show "long_digits @ ''% USDC'' \<noteq> []" by simp
  have "hd (long_digits @ ''% USDC'') = CHR ''0''"
    by (subst long_digits_hd) simp
  then show "\<not> py_isspace (hd (long_digits @ ''% USDC''))"
    by (simp add: py_isspace_def)
  show "\<not> py_isspace (last (long_digits @ ''% USDC''))"
    by (simp add: py_isspace_def)
qed

lemma long_example_match:
  "match_percentage (long_digits @ ''% USDC'') = Some ((long_digits, ''USDC''), [])"
proof -
  have "takeWhile is_decimal (long_digits @ ''% USDC'') = long_digits @ takeWhile is_decimal ''% USDC''"
    using takeWhile_append2 [of long_digits is_decimal "''% USDC''"] long_digits_decimal by blast
  then have t: "takeWhile is_decimal (long_digits @ ''% USDC'') = long_digits"
    by (simp add: is_decimal_def)
  have "dropWhile is_decimal (long_digits @ ''% USDC'') = dropWhile is_decimal ''% USDC''"
    using dropWhile_append2 [of long_digits is_decimal "''% USDC''"] long_digits_decimal by blast
  then have d: "dropWhile is_decimal (long_digits @ ''% USDC'') = ''% USDC''"
    by (simp add: is_decimal_def)
  have ne: "long_digits \<noteq> []"
    by (subst long_digits_hd) simp
  show ?thesis
    unfolding match_percentage_def Let_def t d using ne
    by (simp add: py_isspace_def match_symbol_def startswith_def)
qed

lemma long_example_matches:
  "find_matches (py_strip (py_upper (long_digits @ ''% USDC''))) = [(long_digits, ''USDC'')]"
proof -
  have eq: "long_digits @ ''% USDC'' = CHR ''0'' # (tl long_digits @ ''% USDC'')"
    by (subst long_digits_hd) simp
  have "match_percentage (CHR ''0'' # (tl long_digits @ ''% USDC'')) = Some ((long_digits, ''USDC''), [])"
    by (simp only: eq [symmetric] long_example_match)
  from findall_percentage_step [OF this]
  have 1: "findall match_percentage (long_digits @ ''% USDC'')
          = (long_digits, ''USDC'') # findall match_percentage []"
    by (simp only: eq [symmetric])
  have 2: "findall match_percentage [] = []"
    by (simp add: match_percentage_def)
  have "find_matches (long_digits @ ''% USDC'') = [(long_digits, ''USDC'')]"
    unfolding find_matches_def Let_def 1 2 by simp
  then show ?thesis
    by (simp only: long_example_upper long_example_strip)
qed

lemma long_example_parse:
  "parse_token_preference (long_digits @ ''% USDC'') = Inl (ValueError (int_limit_message 4301))"
proof -
  have nb: "long_digits @ ''% USDC'' \<notin> set [''NATIVE'', ''USDC'', ''ETH'']"
  proof
    assume "long_digits @ ''% USDC'' \<in> set [''NATIVE'', ''USDC'', ''ETH'']"
    then have "length (long_digits @ ''% USDC'') \<le> 6" by auto
    then show False by (simp add: long_digits_length)
  qed
  have sm: "sum_matches [(long_digits, ''USDC'')] ([], 0) = Inl (ValueError (int_limit_message 4301))"
    by (simp add: py_int_def long_digits_length)
  show ?thesis
    unfolding parse_token_preference_def Let_def long_example_upper long_example_strip
      long_example_matches [unfolded long_example_upper long_example_strip]
    using nb sm by (simp only: if_False list.simps sum.case)
qed

text \<open>
  Claim C4, as stated, at the percentage 40 written with 4301 digits: the one matched pair
  totals \<open>T = 40 < 100\<close>, and the parser returns no allocation, since \<open>int\<close> raises
  \<open>ValueError\<close> on a text of more than 4300 digits.
\<close>

theorem shortfall_goes_to_native_counterexample:
  "find_matches (py_strip (py_upper (long_digits @ ''% USDC''))) = [(long_digits, ''USDC'')]
   \<and> matched_total [(long_digits, ''USDC'')] = 40
   \<and> parse_token_preference (long_digits @ ''% USDC'') = Inl (ValueError (int_limit_message 4301))"
  using long_example_matches long_example_parse long_digits_value
  by (simp add: matched_total_def)

lemma contains_infix: "contains (xs @ p @ ys) p"
proof (induction xs)
  case Nil
  have "startswith (p @ ys) p" by (simp add: startswith_def)
  then show ?case by (cases "p @ ys") auto
next
  case (Cons x xs)
  then show ?case by simp
qed

text \<open>
  Claim C5, as amended.  The parser fails in these cases only: with the could-not-parse
  message when the text is no bare symbol and neither pattern matches; with the
  \<open>ValueError\<close> of \<open>int\<close> when a matched percentage has more than 4300 digits; and, when
  the matched percentages total more than 100, with the message that names the total (or
  with the \<open>ValueError\<close> of \<open>str\<close> when the total itself has more than 4300 digits).  On
  every other text it returns an allocation.
\<close>

theorem parse_fails_in_two_cases:
  "(let preference = py_strip (py_upper s); ms = find_matches preference;
        T = matched_total ms in
    (preference \<notin> set [''NATIVE'', ''USDC'', ''ETH''] \<and> ms = [] \<longrightarrow>
          parse_token_preference s = Inl (ValueError could_not_parse))
    \<and> (\<not> within_int_limit ms \<longrightarrow>
          (\<exists>n. 4300 < n \<and> parse_token_preference s = Inl (ValueError (int_limit_message n))))
    \<and> (within_int_limit ms \<and> T > 100 \<longrightarrow>
          parse_token_preference s =
            (case py_str T of
               Inl e \<Rightarrow> Inl e
             | Inr shown \<Rightarrow> Inl (ValueError (exceeds_message T))))
    \<and> (within_int_limit ms \<and> \<not> T > 100
          \<and> \<not> (preference \<notin> set [''NATIVE'', ''USDC'', ''ETH''] \<and> ms = []) \<longrightarrow>
          (\<exists>alloc. parse_token_preference s = Inr alloc)))
   \<and> contains (exceeds_message n) (str_int n)
   \<and> could_not_parse \<noteq> exceeds_message n"
proof -
  define preference where "preference = py_strip (py_upper s)"
  define ms where "ms = find_matches preference"
  define T where "T = matched_total ms"
  have bare: "ms = []" if "preference \<in> set [''NATIVE'', ''USDC'', ''ETH'']"
    using bare_no_matches [OF that] by (simp add: ms_def)
  have empty: "T = 0" if "ms = []"
    using that by (simp add: T_def matched_total_def)
  have p: "parse_token_preference s =
      (if preference \<in> set [''NATIVE'', ''USDC'', ''ETH''] then Inr [(preference, 100)]
       else if ms = [] then Inl (ValueError could_not_parse)
       else if T > 100 then
         (case py_str T of Inl e \<Rightarrow> Inl e | Inr shown \<Rightarrow> Inl (ValueError (exceeds_message T)))
       else if T < 100 then Inr (dict_add ''NATIVE'' (100 - T) (add_matches ms []))
       else Inr (add_matches ms []))"
    if "within_int_limit ms"
    using parse_cases [OF that [unfolded ms_def preference_def]]
    unfolding Let_def preference_def ms_def T_def .
  have 1: "preference \<notin> set [''NATIVE'', ''USDC'', ''ETH''] \<and> ms = [] \<longrightarrow>
          parse_token_preference s = Inl (ValueError could_not_parse)"
  proof (intro impI)
    assume a: "preference \<notin> set [''NATIVE'', ''USDC'', ''ETH''] \<and> ms = []"
    then have "within_int_limit ms" by (simp add: within_int_limit_def)
    from p [OF this] a show "parse_token_preference s = Inl (ValueError could_not_parse)"
      by simp
  qed
  have 2: "\<not> within_int_limit ms \<longrightarrow>
          (\<exists>n. 4300 < n \<and> parse_token_preference s = Inl (ValueError (int_limit_message n)))"
    using parse_beyond_limit [of s] unfolding ms_def preference_def by blast
  have 3: "within_int_limit ms \<and> T > 100 \<longrightarrow>
          parse_token_preference s =
            (case py_str T of
               Inl e \<Rightarrow> Inl e
             | Inr shown \<Rightarrow> Inl (ValueError (exceeds_message T)))"
  proof (intro impI)
    assume a: "within_int_limit ms \<and> T > 100"
    then have "ms \<noteq> []" using empty by auto
    moreover from this bare have "preference \<notin> set [''NATIVE'', ''USDC'', ''ETH'']" by blast
    ultimately show "parse_token_preference s =
            (case py_str T of
               Inl e \<Rightarrow> Inl e
             | Inr shown \<Rightarrow> Inl (ValueError (exceeds_message T)))"
      using p a by simp
  qed
  have 4: "within_int_limit ms \<and> \<not> T > 100
          \<and> \<not> (preference \<notin> set [''NATIVE'', ''USDC'', ''ETH''] \<and> ms = []) \<longrightarrow>
          (\<exists>alloc. parse_token_preference s = Inr alloc)"
  proof (intro impI)
    assume a: "within_int_limit ms \<and> \<not> T > 100
          \<and> \<not> (preference \<notin> set [''NATIVE'', ''USDC'', ''ETH''] \<and> ms = [])"
    then have w: "within_int_limit ms" by blast
    show "\<exists>alloc. parse_token_preference s = Inr alloc"
    proof (cases "preference \<in> set [''NATIVE'', ''USDC'', ''ETH'']")
      case True
      then show ?thesis unfolding p [OF w] by (simp only: if_True) blast
    next
      case False
      with a have "ms \<noteq> []" and "\<not> T > 100" by blast+
      with False show ?thesis unfolding p [OF w] by (simp del: set_simps)
    qed
  qed
  have 5: "contains (exceeds_message n) (str_int n)"
    unfolding exceeds_message_def by (rule contains_infix)
  have 6: "could_not_parse \<noteq> exceeds_message n"
    unfolding could_not_parse_def exceeds_message_def by simp
  from 1 2 3 4 5 6 show ?thesis
    unfolding Let_def preference_def ms_def T_def by blast
qed

theorem parse_fails_in_two_cases_witness:
  "parse_token_preference ''60% USDC and 50% ETH''
     = Inl (ValueError ''Total percentage (110%) cannot exceed 100%'')
   \<and> parse_token_preference ''all in'' = Inl (ValueError could_not_parse)
   \<and> (\<exists>alloc. parse_token_preference ''usdc 70, native 30'' = Inr alloc)
   \<and> (\<exists>n. 4300 < n \<and> parse_token_preference (long_digits @ ''% USDC'')
              = Inl (ValueError (int_limit_message n)))"
proof -
  have a: "matched_total (find_matches (py_strip (py_upper ''60% USDC and 50% ETH''))) = 110
           \<and> within_int_limit (find_matches (py_strip (py_upper ''60% USDC and 50% ETH'')))"
    by code_simp
  have m: "py_str 110 = Inr ''110''
           \<and> exceeds_message 110 = ''Total percentage (110%) cannot exceed 100%''"
    by code_simp
  have b: "py_strip (py_upper ''all in'') \<notin> set [''NATIVE'', ''USDC'', ''ETH'']
           \<and> find_matches (py_strip (py_upper ''all in'')) = []"
    by code_simp
  have c: "matched_total (find_matches (py_strip (py_upper ''usdc 70, native 30''))) = 100
           \<and> find_matches (py_strip (py_upper ''usdc 70, native 30'')) \<noteq> []
           \<and> within_int_limit (find_matches (py_strip (py_upper ''usdc 70, native 30'')))"
    by code_simp
  have d: "\<not> within_int_limit (find_matches (py_strip (py_upper (long_digits @ ''% USDC''))))"
    by (simp add: long_example_matches within_int_limit_def long_digits_length)
  from parse_fails_in_two_cases [of "''60% USDC and 50% ETH''"] a m
  have 1: "parse_token_preference ''60% USDC and 50% ETH''
     = Inl (ValueError ''Total percentage (110%) cannot exceed 100%'')"
    by (simp add: Let_def)
  from parse_fails_in_two_cases [of "''all in''"] b
  have 2: "parse_token_preference ''all in'' = Inl (ValueError could_not_parse)"
    unfolding Let_def by blast
  from parse_fails_in_two_cases [of "''usdc 70, native 30''"] c
  have 3: "\<exists>alloc. parse_token_preference ''usdc 70, native 30'' = Inr alloc"
    unfolding Let_def by simp
  from parse_fails_in_two_cases [of "long_digits @ ''% USDC''"] d
  have 4: "\<exists>n. 4300 < n \<and> parse_token_preference (long_digits @ ''% USDC'')
              = Inl (ValueError (int_limit_message n))"
    unfolding Let_def by blast
  from 1 2 3 4 show ?thesis by blast
qed

text \<open>
  Claim C5, as stated, at the same text: it is matched by the first pattern and its total
  is 40, so it is in neither of the two cases, and the parser fails all the same, with a
  third message.
\<close>

theorem parse_fails_in_two_cases_counterexample:
  "py_strip (py_upper (long_digits @ ''% USDC'')) = long_digits @ ''% USDC''
   \<and> find_matches (long_digits @ ''% USDC'') = [(long_digits, ''USDC'')]
   \<and> matched_total (find_matches (long_digits @ ''% USDC'')) = 40
   \<and> parse_token_preference (long_digits @ ''% USDC'') = Inl (ValueError (int_limit_message 4301))
   \<and> int_limit_message 4301 \<noteq> could_not_parse
   \<and> int_limit_message 4301 \<noteq> exceeds_message 40"
proof -
  have 1: "py_strip (py_upper (long_digits @ ''% USDC'')) = long_digits @ ''% USDC''"
    by (simp only: long_example_upper long_example_strip)
  have 2: "find_matches (long_digits @ ''% USDC'') = [(long_digits, ''USDC'')]"
    using long_example_matches unfolding 1 .
  have 3: "matched_total (find_matches (long_digits @ ''% USDC'')) = 40"
    unfolding 2 by (simp add: matched_total_def long_digits_value)
  have 4: "int_limit_message 4301 \<noteq> could_not_parse"
    by (simp add: int_limit_message_def could_not_parse_def)
  have 5: "int_limit_message 4301 \<noteq> exceeds_message 40"
    by (simp add: int_limit_message_def exceeds_message_def)
  from 1 2 3 4 5 long_example_parse show ?thesis by blast
qed

section \<open>The conversation handlers\<close>

lemma is_valid_wallet_address_iff:
  "is_valid_wallet_address a \<longleftrightarrow>
     (\<exists>hex. a = ''0x'' @ hex \<and> length hex = 40 \<and> set hex \<subseteq> set ''0123456789abcdefABCDEF'')"
proof
  assume v: "is_valid_wallet_address a"
  then have t: "take (length ''0x'') a = ''0x''" and l: "length a = 42"
    and h: "\<forall>c \<in> set (drop 2 a). c \<in> set ''0123456789abcdefABCDEF''"
    unfolding is_valid_wallet_address_def startswith_def by blast+
  have "length ''0x'' = 2" by simp
  with t have "a = ''0x'' @ drop 2 a"
    by (metis append_take_drop_id)
  moreover from l have "length (drop 2 a) = 40" by simp
  ultimately show "\<exists>hex. a = ''0x'' @ hex \<and> length hex = 40 \<and> set hex \<subseteq> set ''0123456789abcdefABCDEF''"
    using h by blast
next
  assume "\<exists>hex. a = ''0x'' @ hex \<and> length hex = 40 \<and> set hex \<subseteq> set ''0123456789abcdefABCDEF''"
  then show "is_valid_wallet_address a"
    by (auto simp: is_valid_wallet_address_def startswith_def)
qed

text \<open>
  Claim C10.  In final.py, for a user awaiting the wallet address whose session holds the
  Twitter URL, the message is accepted (the state moves on to awaiting the swap request
  and the stripped address is stored) if and only if, stripped of surrounding whitespace,
  it is \<open>0x\<close> followed by exactly 40 hexadecimal digits; otherwise the bot is unchanged and
  only the correction prompt is sent.  An accepted address raises nothing unless the score
  is too large for the float product \<open>score * 0.1\<close>, which raises \<open>OverflowError\<close> after
  the state has moved on.
\<close>

theorem wallet_accepted_iff:
  assumes "user_data b user_id = Some d" and "twitter_url d = Some url"
    and "user_states b user_id = Some WAITING_FOR_WALLET_ADDRESS"
  shows "(let hex_address = (\<exists>hex. py_strip w = ''0x'' @ hex \<and> length hex = 40
                               \<and> set hex \<subseteq> set ''0123456789abcdefABCDEF'');
              (b', replies, raised) = handle_wallet_address_final loads http b w user_id in
          (hex_address \<longleftrightarrow> user_states b' user_id \<noteq> Some WAITING_FOR_WALLET_ADDRESS)
          \<and> (hex_address \<longrightarrow> user_states b' user_id = Some WAITING_FOR_SWAP_REQUEST
                \<and> (\<exists>d'. user_data b' user_id = Some d' \<and> wallet_address d' = Some (py_strip w))
                \<and> raised = (if float_overflows (analyze_twitter loads http)
                             then Some OverflowError else None))
          \<and> (\<not> hex_address \<longrightarrow> b' = b \<and> replies = [InvalidWalletPrompt] \<and> raised = None))"
  using assms
  unfolding is_valid_wallet_address_iff [symmetric] Let_def handle_wallet_address_final_def
  by simp

lemma example_wallet_valid:
  "\<exists>hex. py_strip ('' '' @ example_wallet @ '' '') = ''0x'' @ hex \<and> length hex = 40
         \<and> set hex \<subseteq> set ''0123456789abcdefABCDEF''"
proof -
  have "py_strip ('' '' @ example_wallet @ '' '') = ''0x'' @ ''52908400098527886E0F7030069857D2E4169EE7''"
    by code_simp
  moreover have "length ''52908400098527886E0F7030069857D2E4169EE7'' = 40
    \<and> set ''52908400098527886E0F7030069857D2E4169EE7'' \<subseteq> set ''0123456789abcdefABCDEF''"
    by code_simp
  ultimately show ?thesis by blast
qed

theorem wallet_accepted_iff_witness:
  "user_data example_bot 1 = Some example_session
   \<and> twitter_url example_session = Some ''https://x.com/a/status/1''
   \<and> user_states example_bot 1 = Some WAITING_FOR_WALLET_ADDRESS
   \<and> user_states (fst (handle_wallet_address_final example_loads RequestError example_bot
         ('' '' @ example_wallet @ '' '') 1)) 1 = Some WAITING_FOR_SWAP_REQUEST
   \<and> handle_wallet_address_final example_loads RequestError example_bot ''0x1234'' 1
       = (example_bot, [InvalidWalletPrompt], None)"
proof -
  have 1: "user_data example_bot 1 = Some example_session"
    by (simp add: example_bot_def)
  have 2: "twitter_url example_session = Some ''https://x.com/a/status/1''"
    by (simp add: example_session_def empty_session_def)
  have 3: "user_states example_bot 1 = Some WAITING_FOR_WALLET_ADDRESS"
    by (simp add: example_bot_def)
  have no: "\<not> (\<exists>hex. py_strip ''0x1234'' = ''0x'' @ hex \<and> length hex = 40
         \<and> set hex \<subseteq> set ''0123456789abcdefABCDEF'')"
  proof -
    have "py_strip ''0x1234'' = ''0x1234''" by code_simp
    then show ?thesis by auto
  qed
  from wallet_accepted_iff [OF 1 2 3, of "'' '' @ example_wallet @ '' ''" example_loads RequestError]
    example_wallet_valid
  have a: "user_states (fst (handle_wallet_address_final example_loads RequestError example_bot
         ('' '' @ example_wallet @ '' '') 1)) 1 = Some WAITING_FOR_SWAP_REQUEST"
    unfolding Let_def by (auto split: prod.splits)
  from wallet_accepted_iff [OF 1 2 3, of "''0x1234''" example_loads RequestError] no
  have b: "handle_wallet_address_final example_loads RequestError example_bot ''0x1234'' 1
       = (example_bot, [InvalidWalletPrompt], None)"
    unfolding Let_def by (auto split: prod.splits)
  from 1 2 3 a b show ?thesis by blast
qed

text \<open>The handlers of final.py store validated wallet addresses only, and none is empty.\<close>
lemma valid_wallet_nonempty:
  assumes "is_valid_wallet_address w"
  shows "w \<noteq> []"
proof -
  from assms have "length w = 42"
    unfolding is_valid_wallet_address_def by blast
  then show ?thesis by auto
qed

lemma stored_wallets_valid_update:
  assumes "stored_wallets_valid b"
    and "\<And>w. wallet_address d = Some w \<Longrightarrow> is_valid_wallet_address w"
  shows "stored_wallets_valid (b\<lparr> user_data := (user_data b)(u \<mapsto> d) \<rparr>)"
    and "stored_wallets_valid (b\<lparr> user_states := s \<rparr>)"
  using assms unfolding stored_wallets_valid_def by (simp_all split: if_splits)

lemma handle_twitter_url_wallets:
  assumes "stored_wallets_valid b" and "handle_twitter_url b url u = (b', replies, raised)"
  shows "stored_wallets_valid b'"
proof (cases "is_valid_twitter_url url")
  case False
  with assms show ?thesis by (simp add: handle_twitter_url_def)
next
  case True
  show ?thesis
  proof (cases "user_data b u")
    case None
    with True assms show ?thesis by (simp add: handle_twitter_url_def)
  next
    case (Some d)
    have "\<And>w. wallet_address (d\<lparr>twitter_url := Some url\<rparr>) = Some w \<Longrightarrow> is_valid_wallet_address w"
      using assms(1) Some unfolding stored_wallets_valid_def by auto
    from stored_wallets_valid_update(1) [OF assms(1) this, where u = u]
    have "stored_wallets_valid (b\<lparr>user_data := (user_data b)(u \<mapsto> d\<lparr>twitter_url := Some url\<rparr>)\<rparr>)" .
    then have "stored_wallets_valid (b\<lparr>user_data := (user_data b)(u \<mapsto> d\<lparr>twitter_url := Some url\<rparr>),
        user_states := (user_states b)(u \<mapsto> WAITING_FOR_WALLET_ADDRESS)\<rparr>)"
      unfolding stored_wallets_valid_def by simp
    with True Some assms(2) show ?thesis by (simp add: handle_twitter_url_def)
  qed
qed

lemma handle_wallet_address_final_wallets:
  assumes "stored_wallets_valid b"
    and "handle_wallet_address_final loads http b w u = (b', replies, raised)"
  shows "stored_wallets_valid b'"
proof (cases "is_valid_wallet_address (py_strip w)")
  case False
  with assms show ?thesis by (simp add: handle_wallet_address_final_def)
next
  case True
  show ?thesis
  proof (cases "user_data b u")
    case None
    with True assms show ?thesis by (simp add: handle_wallet_address_final_def)
  next
    case (Some d)
    define d1 where "d1 = d\<lparr>wallet_address := Some (py_strip w)\<rparr>"
    define b1 where "b1 = b\<lparr>user_data := (user_data b)(u \<mapsto> d1)\<rparr>"
    have 1: "stored_wallets_valid b1"
      unfolding b1_def
      by (rule stored_wallets_valid_update(1) [OF assms(1)]) (simp add: d1_def True)
    show ?thesis
    proof (cases "twitter_url d")
      case None
      with True Some assms(2) have "b' = b1"
        by (simp add: handle_wallet_address_final_def Let_def b1_def d1_def)
      with 1 show ?thesis by simp
    next
      case (Some url)
      define d2 where "d2 = d1\<lparr>score := Some (analyze_twitter loads http)\<rparr>"
      define b2 where "b2 = b1\<lparr>user_data := (user_data b1)(u \<mapsto> d2),
          user_states := (user_states b1)(u \<mapsto> WAITING_FOR_SWAP_REQUEST)\<rparr>"
      define d3 where "d3 = d2\<lparr>prize_amount := Some (analyze_twitter loads http)\<rparr>"
      define b3 where "b3 = b2\<lparr>user_data := (user_data b2)(u \<mapsto> d3)\<rparr>"
      have "stored_wallets_valid (b1\<lparr>user_data := (user_data b1)(u \<mapsto> d2)\<rparr>)"
        by (rule stored_wallets_valid_update(1) [OF 1]) (simp add: d2_def d1_def True)
      then have 2: "stored_wallets_valid b2"
        unfolding stored_wallets_valid_def b2_def by simp
      have 3: "stored_wallets_valid b3"
        unfolding b3_def
        by (rule stored_wallets_valid_update(1) [OF 2]) (simp add: d3_def d2_def d1_def True)
      from True \<open>user_data b u = Some d\<close> Some assms(2)
      have "b' = (if float_overflows (analyze_twitter loads http) then b2 else b3)"
        by (simp add: handle_wallet_address_final_def Let_def b1_def d1_def d2_def b2_def
            d3_def b3_def split: if_splits)
      with 2 3 show ?thesis by simp
    qed
  qed
qed

lemma cleanup_user_data_wallets:
  assumes "stored_wallets_valid b"
  shows "stored_wallets_valid (cleanup_user_data b u)"
proof (cases "user_data b u")
  case None
  with assms show ?thesis
    unfolding stored_wallets_valid_def by (simp add: cleanup_user_data_def)
next
  case (Some d)
  define d2 where "d2 = (let d0 = empty_session;
      d1 = (if str_truthy (wallet_address d) then d0\<lparr>wallet_address := wallet_address d\<rparr> else d0)
      in if str_truthy (session_id d) then d1\<lparr>session_id := session_id d\<rparr> else d1)"
  have w: "wallet_address d2 = Some x \<Longrightarrow> is_valid_wallet_address x" for x
    using assms Some unfolding stored_wallets_valid_def d2_def
    by (auto simp: Let_def empty_session_def split: if_splits)
  have 1: "stored_wallets_valid (b\<lparr>user_states := (user_states b)(u \<mapsto> IDLE)\<rparr>)"
    using assms unfolding stored_wallets_valid_def by simp
  have "cleanup_user_data b u = (b\<lparr>user_states := (user_states b)(u \<mapsto> IDLE)\<rparr>)
      \<lparr>user_data := (user_data (b\<lparr>user_states := (user_states b)(u \<mapsto> IDLE)\<rparr>))(u \<mapsto> d2)\<rparr>"
    using Some by (simp add: cleanup_user_data_def Let_def d2_def)
  with stored_wallets_valid_update(1) [OF 1 w] show ?thesis by simp
qed

lemma stored_wallet_nonempty:
  assumes "stored_wallets_valid b" and "user_data b u = Some d"
  shows "wallet_address d \<noteq> Some []"
proof
  assume "wallet_address d = Some []"
  with assms have "is_valid_wallet_address []"
    unfolding stored_wallets_valid_def by blast
  with valid_wallet_nonempty show False by blast
qed

text \<open>
  Claim C9, as stated, at a user with a stored message: the cleanup leaves the user's
  message history, which is per-user data of the session, as it was.
\<close>

theorem cleanup_keeps_wallet_and_session_counterexample:
  "chat_histories (cleanup_user_data cleanup_example 1) 1
     = Some [JDict [(''role'', JStr ''user''), (''content'', JStr ''swap all to ETH'')]]
   \<and> chat_histories (cleanup_user_data cleanup_example 1) 1 \<noteq> Some []
   \<and> chat_histories (cleanup_user_data cleanup_example 1) 1 \<noteq> None"
  by (simp add: cleanup_user_data_def cleanup_example_def Let_def)

text \<open>
  Claim C9, as amended.  \<open>cleanup_user_data\<close>, which both swap executions end with, sets
  the user's state to IDLE and replaces the session by one that holds nothing but the
  wallet address and the session identifier, with the values they had (each is stored
  non-empty); the message histories stay as they are, that of the user too, and other
  users are untouched.
\<close>

theorem cleanup_keeps_wallet_and_session:
  "(let b' = cleanup_user_data b user_id in
    user_states b' user_id = Some IDLE
    \<and> (\<forall>d. user_data b user_id = Some d \<and> wallet_address d \<noteq> Some [] \<and> session_id d \<noteq> Some [] \<longrightarrow>
          user_data b' user_id =
            Some (empty_session\<lparr> wallet_address := wallet_address d, session_id := session_id d \<rparr>))
    \<and> (user_data b user_id = None \<longrightarrow> user_data b' user_id = None)
    \<and> chat_histories b' = chat_histories b
    \<and> (\<forall>u. u \<noteq> user_id \<longrightarrow> user_states b' u = user_states b u \<and> user_data b' u = user_data b u))"
  unfolding Let_def cleanup_user_data_def
  by (auto simp: str_truthy_def empty_session_def split: option.splits)

theorem cleanup_keeps_wallet_and_session_witness:
  "user_states (cleanup_user_data cleanup_example 1) 1 = Some IDLE
   \<and> user_data (cleanup_user_data cleanup_example 1) 1
       = Some \<lparr> twitter_url = None, wallet_address = Some example_wallet, score = None,
                prize_amount = None, pending_tool_invocations = None, session_id = Some ''3f2b'' \<rparr>
   \<and> chat_histories (cleanup_user_data cleanup_example 1) = chat_histories cleanup_example"
proof -
  let ?d = "\<lparr> twitter_url = Some ''https://x.com/a/status/1'',
        wallet_address = Some example_wallet, score = Some 7, prize_amount = Some 7,
        pending_tool_invocations = Some [], session_id = Some ''3f2b'' \<rparr>"
  have h: "user_data cleanup_example 1 = Some ?d \<and> wallet_address ?d \<noteq> Some []
           \<and> session_id ?d \<noteq> Some []"
    by (simp add: cleanup_example_def example_wallet_def)
  from cleanup_keeps_wallet_and_session [of cleanup_example 1] h
  show ?thesis
    unfolding Let_def by (auto simp: empty_session_def)
qed

lemma py_str_error: "py_str i = Inl e \<Longrightarrow> \<exists>m. e = ValueError m"
  by (auto simp: py_str_def split: if_splits)

lemma parse_error_is_ValueError:
  assumes "parse_token_preference s = Inl e"
  shows "\<exists>m. e = ValueError m"
proof (cases "within_int_limit (find_matches (py_strip (py_upper s)))")
  case False
  from parse_beyond_limit [OF False] obtain n
    where "parse_token_preference s = Inl (ValueError (int_limit_message n))" by blast
  with assms have "e = ValueError (int_limit_message n)" by simp
  then show ?thesis by blast
next
  case True
  define P where "P = py_strip (py_upper s)"
  define T where "T = matched_total (find_matches P)"
  have "py_str T = Inl e \<or> e = ValueError could_not_parse \<or> e = ValueError (exceeds_message T)"
    using assms unfolding parse_cases [OF True] Let_def P_def [symmetric] T_def [symmetric]
    by (simp del: set_simps split: if_splits sum.splits)
  with py_str_error show ?thesis by blast
qed

text \<open>
  Claim C8.  A message that fails the validation of the current state (an invalid URL, an
  invalid wallet address, a preference the parser rejects as unparsable or as exceeding
  100%) leaves the bot, that is every user's state and session, unchanged, sends only
  the correction prompt and raises nothing.
\<close>
theorem invalid_input_keeps_state:
  "(\<not> is_valid_twitter_url msg \<longrightarrow>
      handle_twitter_url b msg user_id = (b, [InvalidUrlPrompt], None))
   \<and> (\<not> is_valid_wallet_address (py_strip msg) \<longrightarrow>
      handle_wallet_address_final loads http b msg user_id = (b, [InvalidWalletPrompt], None))
   \<and> (\<forall>e. parse_token_preference msg = Inl e \<longrightarrow>
      (\<exists>m. e = ValueError m \<and> handle_token_preference b msg user_id = (b, [PreferenceError m], None)))
   \<and> (user_states b user_id = Some WAITING_FOR_TWITTER_URL \<and> \<not> is_valid_twitter_url msg \<longrightarrow>
      handle_message loads http b msg user_id = (b, [InvalidUrlPrompt], None))
   \<and> (user_states b user_id = Some WAITING_FOR_WALLET_ADDRESS \<and> py_strip msg = [] \<longrightarrow>
      handle_message loads http b msg user_id = (b, [InvalidWalletPrompt], None))
   \<and> (\<forall>e. user_states b user_id = Some WAITING_FOR_TOKEN_PREFERENCE
          \<and> parse_token_preference msg = Inl e \<longrightarrow>
      (\<exists>m. e = ValueError m \<and> handle_message loads http b msg user_id = (b, [PreferenceError m], None)))"
proof -
  have tp: "\<exists>m. e = ValueError m \<and> handle_token_preference b msg user_id = (b, [PreferenceError m], None)"
    if "parse_token_preference msg = Inl e" for e
    using that parse_error_is_ValueError [OF that]
    by (auto simp: handle_token_preference_def)
  show ?thesis
    using tp
    by (auto simp: handle_twitter_url_def handle_wallet_address_final_def
        handle_wallet_address_def handle_message_def)
qed

theorem invalid_input_keeps_state_witness:
  "handle_twitter_url example_bot ''twitter.com/a'' 1 = (example_bot, [InvalidUrlPrompt], None)
   \<and> handle_wallet_address_final example_loads RequestError example_bot ''0x1234'' 1
       = (example_bot, [InvalidWalletPrompt], None)
   \<and> handle_token_preference example_bot ''60% USDC and 50% ETH'' 1
       = (example_bot, [PreferenceError ''Total percentage (110%) cannot exceed 100%''], None)
   \<and> handle_message example_loads RequestError
         (example_bot\<lparr>user_states := [1 \<mapsto> WAITING_FOR_TWITTER_URL]\<rparr>) ''twitter.com/a'' 1
       = (example_bot\<lparr>user_states := [1 \<mapsto> WAITING_FOR_TWITTER_URL]\<rparr>, [InvalidUrlPrompt], None)
   \<and> handle_message example_loads RequestError example_bot ''  '' 1
       = (example_bot, [InvalidWalletPrompt], None)
   \<and> handle_message example_loads RequestError
         (example_bot\<lparr>user_states := [1 \<mapsto> WAITING_FOR_TOKEN_PREFERENCE]\<rparr>) ''all in'' 1
       = (example_bot\<lparr>user_states := [1 \<mapsto> WAITING_FOR_TOKEN_PREFERENCE]\<rparr>,
          [PreferenceError could_not_parse], None)"
proof -
  have u: "\<not> is_valid_twitter_url ''twitter.com/a''"
    by code_simp
  have w: "\<not> is_valid_wallet_address (py_strip ''0x1234'')"
    by code_simp
  have p: "parse_token_preference ''60% USDC and 50% ETH''
      = Inl (ValueError ''Total percentage (110%) cannot exceed 100%'')"
    by code_simp
  have q: "parse_token_preference ''all in'' = Inl (ValueError could_not_parse)"
    by code_simp
  have bl: "py_strip ''  '' = []"
    by code_simp
  have s1: "user_states (example_bot\<lparr>user_states := [1 \<mapsto> WAITING_FOR_TWITTER_URL]\<rparr>) 1
      = Some WAITING_FOR_TWITTER_URL"
    by simp
  have s2: "user_states example_bot 1 = Some WAITING_FOR_WALLET_ADDRESS"
    by (simp add: example_bot_def)
  have s3: "user_states (example_bot\<lparr>user_states := [1 \<mapsto> WAITING_FOR_TOKEN_PREFERENCE]\<rparr>) 1
      = Some WAITING_FOR_TOKEN_PREFERENCE"
    by simp
  from invalid_input_keeps_state [of "''twitter.com/a''" example_bot 1] u
  have 1: "handle_twitter_url example_bot ''twitter.com/a'' 1 = (example_bot, [InvalidUrlPrompt], None)"
    by blast
  from invalid_input_keeps_state [of "''0x1234''" example_bot 1 example_loads RequestError] w
  have 2: "handle_wallet_address_final example_loads RequestError example_bot ''0x1234'' 1
       = (example_bot, [InvalidWalletPrompt], None)"
    by blast
  from invalid_input_keeps_state [of "''60% USDC and 50% ETH''" example_bot 1] p
  have 3: "handle_token_preference example_bot ''60% USDC and 50% ETH'' 1
       = (example_bot, [PreferenceError ''Total percentage (110%) cannot exceed 100%''], None)"
    by auto
  from invalid_input_keeps_state [of "''twitter.com/a''"
      "example_bot\<lparr>user_states := [1 \<mapsto> WAITING_FOR_TWITTER_URL]\<rparr>" 1 example_loads RequestError] u s1
  have 4: "handle_message example_loads RequestError
         (example_bot\<lparr>user_states := [1 \<mapsto> WAITING_FOR_TWITTER_URL]\<rparr>) ''twitter.com/a'' 1
       = (example_bot\<lparr>user_states := [1 \<mapsto> WAITING_FOR_TWITTER_URL]\<rparr>, [InvalidUrlPrompt], None)"
    by blast
  from invalid_input_keeps_state [of "''  ''" example_bot 1 example_loads RequestError] bl s2
  have 5: "handle_message example_loads RequestError example_bot ''  '' 1
       = (example_bot, [InvalidWalletPrompt], None)"
    by blast
  from invalid_input_keeps_state [of "''all in''"
      "example_bot\<lparr>user_states := [1 \<mapsto> WAITING_FOR_TOKEN_PREFERENCE]\<rparr>" 1 example_loads RequestError] q s3
  have 6: "handle_message example_loads RequestError
         (example_bot\<lparr>user_states := [1 \<mapsto> WAITING_FOR_TOKEN_PREFERENCE]\<rparr>) ''all in'' 1
       = (example_bot\<lparr>user_states := [1 \<mapsto> WAITING_FOR_TOKEN_PREFERENCE]\<rparr>,
          [PreferenceError could_not_parse], None)"
    by auto
  from 1 2 3 4 5 6 show ?thesis by blast
qed

section \<open>Twitter scoring\<close>

lemma prefix_a_not_0: "startswith line ''a:'' \<Longrightarrow> \<not> startswith line ''0:''"
  by (auto simp: startswith_def)

lemma convert_score_no_score:
  "\<not> is_score v \<Longrightarrow> convert_score sc v = Inr sc"
  by (cases v) (simp_all add: is_score_def convert_score_def)

lemma py_in_dict: "py_in key (JDict d) = Inr (map_of d key \<noteq> None)"
  by (simp add: py_in_def map_of_eq_None_iff)

lemma score_line_body_no_score:
  assumes "\<not> carries_score loads line"
  shows "score_line_body loads sc line = Inr sc \<or> (\<exists>e. score_line_body loads sc line = Inl e)"
proof (cases "startswith line ''a:''")
  case a: True
  show ?thesis
  proof (cases "loads (drop 2 line)")
    case (Inl e)
    with a show ?thesis by (simp add: score_line_body_def)
  next
    case (Inr json_data)
    show ?thesis
    proof (cases "\<exists>d r v. json_data = JDict d \<and> map_of d ''result'' = Some (JDict r)
                    \<and> map_of r ''data'' = Some v")
      case True
      then obtain d r v where j: "json_data = JDict d" "map_of d ''result'' = Some (JDict r)"
        "map_of r ''data'' = Some v" by blast
      with assms a Inr have "\<not> is_score v"
        by (simp add: carries_score_def)
      with a Inr j show ?thesis
        by (simp add: score_line_body_def py_in_dict py_subscript_def convert_score_no_score)
    next
      case False
      have "score_line_body loads sc line =
          (case py_in ''result'' json_data of
                Inl e \<Rightarrow> Inl e
              | Inr False \<Rightarrow> Inr sc
              | Inr True \<Rightarrow>
                  (case py_subscript json_data ''result'' of
                     Inl e \<Rightarrow> Inl e
                   | Inr result \<Rightarrow>
                       (case py_in ''data'' result of
                          Inl e \<Rightarrow> Inl e
                        | Inr False \<Rightarrow> Inr sc
                        | Inr True \<Rightarrow>
                            (case py_subscript result ''data'' of
                               Inl e \<Rightarrow> Inl e
                             | Inr result_data \<Rightarrow> convert_score sc result_data))))"
        using a Inr by (simp add: score_line_body_def)
      moreover have "py_subscript result ''data'' = Inl TypeError \<or> py_in ''data'' result = Inr False"
        if "py_subscript json_data ''result'' = Inr result" "py_in ''data'' result = Inr True" for result
      proof (cases result)
        case (JDict r)
        from that(1) obtain d where "json_data = JDict d" "map_of d ''result'' = Some result"
          by (auto simp: py_subscript_def split: json.splits option.splits)
        with False JDict have "map_of r ''data'' = None"
          by (cases "map_of r ''data''") auto
        then show ?thesis by (simp add: JDict py_in_dict)
      qed (simp_all add: py_subscript_def)
      ultimately show ?thesis
        by (auto split: sum.splits bool.splits)
    qed
  qed
next
  case na: False
  show ?thesis
  proof (cases "startswith line ''0:''")
    case True
    with assms have "\<not> py_isdigit (strip_quotes (drop 2 line))"
      by (simp add: carries_score_def)
    with na True show ?thesis by (simp add: score_line_body_def Let_def)
  next
    case False
    with na show ?thesis by (simp add: score_line_body_def)
  qed
qed

lemma score_line_no_score:
  assumes "\<not> carries_score loads line"
  shows "score_line loads sc line = Inr sc \<or> (\<exists>e. score_line loads sc line = Inl e)"
proof (cases "score_line_body loads sc line")
  case (Inl e)
  then show ?thesis by (cases "caught_by_inner e") (simp_all add: score_line_def)
next
  case (Inr sc')
  with score_line_body_no_score [OF assms, of sc] show ?thesis
    by (simp add: score_line_def)
qed

lemma score_lines_no_score:
  "\<forall>line \<in> set ls. \<not> carries_score loads line \<Longrightarrow>
     score_lines loads sc ls = Inr sc \<or> (\<exists>e. score_lines loads sc ls = Inl e)"
proof (induction ls)
  case Nil
  then show ?case by simp
next
  case (Cons l ls)
  from Cons.prems have "\<not> carries_score loads l" by simp
  from score_line_no_score [OF this, of sc] Cons show ?case
    by auto
qed

text \<open>
  Claim C7.  The Twitter analysis returns the score 1 when the response status is not 200
  (so for every non-success status), when the request raises, when the body cannot be
  decoded, when scanning the lines raises an exception the inner handler does not catch,
  and when no line of the body is a recognizable score line: an \<open>a:\<close> line whose decoded
  payload holds a score under \<open>result.data\<close>, or a \<open>0:\<close> line whose payload is a digit
  string.
\<close>

theorem analyze_twitter_falls_back_to_1:
  "(status \<noteq> 200 \<longrightarrow> analyze_twitter loads (HttpResponse status body) = 1)
   \<and> analyze_twitter loads RequestError = 1
   \<and> analyze_twitter loads (HttpResponse 200 None) = 1
   \<and> (score_lines loads 1 (split_lines (py_strip text)) = Inl e \<longrightarrow>
        analyze_twitter loads (HttpResponse 200 (Some text)) = 1)
   \<and> ((\<forall>line \<in> set (split_lines (py_strip text)). \<not> carries_score loads line) \<longrightarrow>
        analyze_twitter loads (HttpResponse 200 (Some text)) = 1)"
proof -
  have "analyze_twitter loads (HttpResponse 200 (Some text)) = 1"
    if "\<forall>line \<in> set (split_lines (py_strip text)). \<not> carries_score loads line"
    using score_lines_no_score [OF that, of 1]
    by (auto simp: analyze_twitter_def parse_twitter_scoring_response_def)
  then show ?thesis
    by (simp add: analyze_twitter_def parse_twitter_scoring_response_def)
qed

theorem analyze_twitter_falls_back_to_1_witness:
  \<open>analyze_twitter example_loads (HttpResponse 503 (Some ''0:"7"'')) = 1
   \<and> score_lines example_loads 1 (split_lines (py_strip (''0:"7"'' @ [CHR 0x0A] @ ''a:5''))) = Inl TypeError
   \<and> analyze_twitter example_loads (HttpResponse 200 (Some (''0:"7"'' @ [CHR 0x0A] @ ''a:5''))) = 1
   \<and> analyze_twitter example_loads (HttpResponse 200
        (Some (''f:{"messageId":"m"}'' @ [CHR 0x0A] @ ''0:"hello"'' @ [CHR 0x0A]
               @ ''a:{"finishReason":"stop"}'' @ [CHR 0x0A] @ ''a:{"toolCallId":"","result":1}''))) = 1
   \<and> analyze_twitter example_loads (HttpResponse 200 (Some ''0:"7"'')) = 7
   \<and> analyze_twitter example_loads (HttpResponse 200 (Some ''a:{"toolCallId":"x","result":{"data":7}}'')) = 7\<close>
proof -
  have e: \<open>score_lines example_loads 1 (split_lines (py_strip (''0:"7"'' @ [CHR 0x0A] @ ''a:5''))) = Inl TypeError\<close>
    by code_simp
  have n: \<open>\<forall>line \<in> set (split_lines (py_strip (''f:{"messageId":"m"}'' @ [CHR 0x0A] @ ''0:"hello"'' @ [CHR 0x0A]
               @ ''a:{"finishReason":"stop"}'' @ [CHR 0x0A] @ ''a:{"toolCallId":"","result":1}''))).
             \<not> carries_score example_loads line\<close>
    by code_simp
  have s: \<open>analyze_twitter example_loads (HttpResponse 200 (Some ''0:"7"'')) = 7\<close>
    by code_simp
  have t: \<open>analyze_twitter example_loads (HttpResponse 200 (Some ''a:{"toolCallId":"x","result":{"data":7}}'')) = 7\<close>
    by code_simp
  from analyze_twitter_falls_back_to_1 [of 503 example_loads \<open>Some ''0:"7"''\<close>]
  have 1: \<open>analyze_twitter example_loads (HttpResponse 503 (Some ''0:"7"'')) = 1\<close>
    by simp
  from analyze_twitter_falls_back_to_1 [of _ example_loads _ \<open>''0:"7"'' @ [CHR 0x0A] @ ''a:5''\<close> TypeError] e
  have 2: \<open>analyze_twitter example_loads (HttpResponse 200 (Some (''0:"7"'' @ [CHR 0x0A] @ ''a:5''))) = 1\<close>
    by blast
  from analyze_twitter_falls_back_to_1 [of _ example_loads _ \<open>''f:{"messageId":"m"}'' @ [CHR 0x0A] @ ''0:"hello"'' @ [CHR 0x0A]
               @ ''a:{"finishReason":"stop"}'' @ [CHR 0x0A] @ ''a:{"toolCallId":"","result":1}''\<close>] n
  have 3: \<open>analyze_twitter example_loads (HttpResponse 200
        (Some (''f:{"messageId":"m"}'' @ [CHR 0x0A] @ ''0:"hello"'' @ [CHR 0x0A]
               @ ''a:{"finishReason":"stop"}'' @ [CHR 0x0A] @ ''a:{"toolCallId":"","result":1}''))) = 1\<close>
    by blast
  from 1 e 2 3 s t show ?thesis by blast
qed

section \<open>The streaming parser\<close>

lemma final_line_blank: "py_strip l = [] \<Longrightarrow> process_line_final loads st l = Inr st"
  by (cases st) (simp add: process_line_final_def)

lemma final_line_strip: "process_line_final loads st (py_strip l) = process_line_final loads st l"
  by (simp add: process_line_final_def strip_idem)

lemma final_lines_core:
  "process_lines_final loads st (core ls) = process_lines_final loads st ls"
proof (induction ls arbitrary: st)
  case Nil
  then show ?case by (simp add: core_def)
next
  case (Cons l ls)
  have c: "core (l # ls) = (if py_strip l = [] then core ls else py_strip l # core ls)"
    by (simp add: core_def)
  show ?case
  proof (cases "py_strip l = []")
    case True
    then show ?thesis by (simp add: c Cons.IH final_line_blank)
  next
    case False
    then show ?thesis by (simp add: c Cons.IH final_line_strip split: sum.splits)
  qed
qed

lemma final_lines_append:
  "process_lines_final loads st (xs @ ys) =
     (case process_lines_final loads st xs of
        Inl e \<Rightarrow> Inl e
      | Inr st' \<Rightarrow> process_lines_final loads st' ys)"
  by (induction xs arbitrary: st) (auto split: sum.splits)

lemma final_lines_of_text:
  "process_lines_final loads st (split_lines (py_strip text))
     = process_lines_final loads st (split_lines text)"
  by (metis final_lines_core core_strip)

lemma final_lines_of_join:
  assumes "\<forall>l \<in> set ls. CHR 0x0A \<notin> set l"
  shows "process_lines_final loads st (split_lines (py_strip (join [CHR 0x0A] ls)))
     = process_lines_final loads st ls"
proof (cases "ls = []")
  case True
  then show ?thesis by (simp add: strip_Nil final_line_blank)
next
  case False
  with assms show ?thesis by (simp add: final_lines_of_text split_lines_join)
qed

lemma line_body_unrecognized: "unrecognized l \<Longrightarrow> line_body loads st l = Inr st"
  by (cases st) (simp add: line_body_def unrecognized_def)

lemma line_body_raises:
  assumes "\<not> unrecognized l" and "loads (drop 2 l) = Inl e"
  shows "line_body loads st l = Inl e"
  using assms by (cases st) (auto simp: line_body_def unrecognized_def)

lemma final_line_skipped:
  assumes "skipped_line_final loads l"
  shows "process_line_final loads st l = Inr st"
proof (cases "unrecognized (py_strip l)")
  case True
  then show ?thesis by (simp add: process_line_final_def Let_def line_body_unrecognized)
next
  case False
  with assms have "loads (drop 2 (py_strip l)) = Inl JSONDecodeError"
    by (simp add: skipped_line_final_def)
  from line_body_raises [of "py_strip l" loads JSONDecodeError st, OF False this] show ?thesis
    by (simp add: process_line_final_def Let_def)
qed

lemma final_lines_skip:
  assumes "skipped_line_final loads bad"
  shows "process_lines_final loads st (xs @ [bad] @ ys) = process_lines_final loads st (xs @ ys)"
  by (simp add: final_lines_append final_line_skipped [OF assms] split: sum.splits)

lemma swap_line_blank: "py_strip l = [] \<Longrightarrow> process_line_swap loads st l = st"
  by (cases st) (simp add: process_line_swap_def)

lemma swap_line_strip: "process_line_swap loads st (py_strip l) = process_line_swap loads st l"
  by (simp add: process_line_swap_def strip_idem)

lemma swap_lines_core:
  "process_lines_swap loads st (core ls) = process_lines_swap loads st ls"
proof (induction ls arbitrary: st)
  case Nil
  then show ?case by (simp add: core_def)
next
  case (Cons l ls)
  have c: "core (l # ls) = (if py_strip l = [] then core ls else py_strip l # core ls)"
    by (simp add: core_def)
  show ?case
    by (cases "py_strip l = []") (simp_all add: c Cons.IH swap_line_blank swap_line_strip)
qed

lemma swap_lines_append:
  "process_lines_swap loads st (xs @ ys) =
     process_lines_swap loads (process_lines_swap loads st xs) ys"
  by (induction xs arbitrary: st) auto

lemma swap_lines_of_text:
  "process_lines_swap loads st (split_lines (py_strip text))
     = process_lines_swap loads st (split_lines text)"
  by (metis swap_lines_core core_strip)

lemma swap_lines_of_join:
  assumes "\<forall>l \<in> set ls. CHR 0x0A \<notin> set l"
  shows "process_lines_swap loads st (split_lines (py_strip (join [CHR 0x0A] ls)))
     = process_lines_swap loads st ls"
proof (cases "ls = []")
  case True
  then show ?thesis by (simp add: strip_Nil swap_line_blank)
next
  case False
  with assms show ?thesis by (simp add: swap_lines_of_text split_lines_join)
qed

lemma swap_line_skipped:
  assumes "skipped_line_swap loads l"
  shows "process_line_swap loads st l = st"
proof (cases "unrecognized (py_strip l)")
  case True
  then show ?thesis by (simp add: process_line_swap_def Let_def line_body_unrecognized)
next
  case False
  with assms obtain e where "loads (drop 2 (py_strip l)) = Inl e"
    by (auto simp: skipped_line_swap_def)
  from line_body_raises [of "py_strip l" loads e st, OF False this] show ?thesis
    by (simp add: process_line_swap_def Let_def)
qed

lemma swap_lines_skip:
  assumes "skipped_line_swap loads bad"
  shows "process_lines_swap loads st (xs @ [bad] @ ys) = process_lines_swap loads st (xs @ ys)"
  by (simp add: swap_lines_append swap_line_skipped [OF assms])

lemma deep_brackets_chars: "set deep_brackets = {CHR 0x5B}"
  by (simp add: deep_brackets_def)

lemma deep_line_strip:
  "py_strip (CHR ''0'' # CHR '':'' # deep_brackets) = CHR ''0'' # CHR '':'' # deep_brackets"
proof (rule strip_core)
  show "CHR ''0'' # CHR '':'' # deep_brackets \<noteq> []" by simp
  show "\<not> py_isspace (hd (CHR ''0'' # CHR '':'' # deep_brackets))" by (simp add: py_isspace_def)
  have "last (CHR ''0'' # CHR '':'' # deep_brackets) \<in> set deep_brackets"
    by (simp add: deep_brackets_def)
  then have "last (CHR ''0'' # CHR '':'' # deep_brackets) = CHR 0x5B"
    by (simp only: deep_brackets_chars singleton_iff)
  then show "\<not> py_isspace (last (CHR ''0'' # CHR '':'' # deep_brackets))"
    by (simp add: py_isspace_def)
qed

lemma deep_line_raises:
  "process_line_final example_loads_deep st (CHR ''0'' # CHR '':'' # deep_brackets) = Inl RecursionError"
proof -
  have "line_body example_loads_deep st (CHR ''0'' # CHR '':'' # deep_brackets) = Inl RecursionError"
    by (rule line_body_raises) (simp_all add: unrecognized_def startswith_def example_loads_deep_def)
  then show ?thesis
    by (simp add: process_line_final_def Let_def deep_line_strip)
qed

lemma deep_brackets_length: "length deep_brackets = 2000"
  by (simp add: deep_brackets_def)

text \<open>
  Claim C2, as stated, in final.py: on a line whose payload is 2000 opening brackets, which
  is no JSON, \<open>json.loads\<close> raises \<open>RecursionError\<close>; the handler of the loop does not catch
  it, and the parse of the whole body returns the error response.  Without the line the
  body parses to the content \<open>hello\<close>.
\<close>

theorem bad_line_is_skipped_counterexample:
  \<open>example_loads_deep deep_brackets = Inl RecursionError
   \<and> parse_streaming_response_final example_loads_deep ''u''
        (join [CHR 0x0A] ([''0:"hello"''] @ [''0:'' @ deep_brackets] @ []))
      = ErrorResponse RecursionError
   \<and> parse_streaming_response_final example_loads_deep ''u'' (join [CHR 0x0A] ([''0:"hello"''] @ []))
      = Response \<lparr> assistant_message = Some (JDict [
          (''id'', JStr ''msg-u''), (''role'', JStr ''assistant''), (''content'', JStr ''hello''),
          (''parts'', JList [JDict [(''type'', JStr ''text''), (''text'', JStr ''hello'')]]),
          (''toolInvocations'', JList []),
          (''annotations'', JList [JDict [(''agentId'', JStr ''bitte-defi'')]])]),
        content = ''hello'', tool_invocations = [] \<rparr>\<close>
proof -
  have 1: "example_loads_deep deep_brackets = Inl RecursionError"
    by (simp add: example_loads_deep_def)
  have nl: \<open>\<forall>l \<in> set ([''0:"hello"''] @ [''0:'' @ deep_brackets] @ []). CHR 0x0A \<notin> set l\<close>
    by (simp add: deep_brackets_chars)
  have h: \<open>process_line_final example_loads_deep ([], [], []) ''0:"hello"'' = Inr (''hello'', [], [])\<close>
  proof -
    have \<open>''"hello"'' \<noteq> deep_brackets\<close>
    proof
      assume \<open>''"hello"'' = deep_brackets\<close>
      then have \<open>length ''"hello"'' = length deep_brackets\<close> by (rule arg_cong)
      then show False by (simp add: deep_brackets_length)
    qed
    then have \<open>example_loads_deep ''"hello"'' = example_loads ''"hello"''\<close>
      by (simp only: example_loads_deep_def if_False)
    moreover have \<open>example_loads ''"hello"'' = Inr (JStr ''hello'')\<close>
      by code_simp
    moreover have \<open>py_strip ''0:"hello"'' = ''0:"hello"''\<close>
      by code_simp
    ultimately show ?thesis
      by (simp add: process_line_final_def Let_def line_body_def startswith_def)
  qed
  have 2: \<open>parse_streaming_response_final example_loads_deep ''u''
        (join [CHR 0x0A] ([''0:"hello"''] @ [''0:'' @ deep_brackets] @ []))
      = ErrorResponse RecursionError\<close>
    unfolding parse_streaming_response_final_def Let_def final_lines_of_join [OF nl]
    by (simp add: h deep_line_raises)
  have 3: \<open>parse_streaming_response_final example_loads_deep ''u'' (join [CHR 0x0A] ([''0:"hello"''] @ []))
      = Response \<lparr> assistant_message = Some (JDict [
          (''id'', JStr ''msg-u''), (''role'', JStr ''assistant''), (''content'', JStr ''hello''),
          (''parts'', JList [JDict [(''type'', JStr ''text''), (''text'', JStr ''hello'')]]),
          (''toolInvocations'', JList []),
          (''annotations'', JList [JDict [(''agentId'', JStr ''bitte-defi'')]])]),
        content = ''hello'', tool_invocations = [] \<rparr>\<close>
  proof -
    have nl': \<open>\<forall>l \<in> set ([''0:"hello"''] @ []). CHR 0x0A \<notin> set l\<close> by simp
    show ?thesis
      unfolding parse_streaming_response_final_def Let_def final_lines_of_join [OF nl']
      by (simp add: h make_response_def)
  qed
  from 1 2 3 show ?thesis by blast
qed

text \<open>
  Claim C2, as amended.  A line with an unrecognized prefix has no effect on the parse, and
  neither has a line with a recognized prefix on whose payload \<open>json.loads\<close> raises
  \<open>JSONDecodeError\<close> (final.py) or any exception (swap.py): the parser returns on the body
  the same as on the body without that line, so such a line never makes the parse fail.
\<close>

theorem bad_line_is_skipped:
  assumes "\<forall>l \<in> set (before @ [bad] @ after). CHR 0x0A \<notin> set l"
  shows "(skipped_line_final loads bad \<longrightarrow>
          parse_streaming_response_final loads uuid (join [CHR 0x0A] (before @ [bad] @ after))
           = parse_streaming_response_final loads uuid (join [CHR 0x0A] (before @ after)))
       \<and> (skipped_line_swap loads bad \<longrightarrow>
          parse_streaming_response_swap loads uuid (join [CHR 0x0A] (before @ [bad] @ after))
           = parse_streaming_response_swap loads uuid (join [CHR 0x0A] (before @ after)))"
proof (intro conjI impI)
  from assms have nl: "\<forall>l \<in> set (before @ after). CHR 0x0A \<notin> set l" by auto
  {
    assume sk: "skipped_line_final loads bad"
    have f: "process_lines_final loads st (split_lines (py_strip (join [CHR 0x0A] (before @ [bad] @ after))))
        = process_lines_final loads st (split_lines (py_strip (join [CHR 0x0A] (before @ after))))" for st
      by (simp only: final_lines_of_join [OF assms] final_lines_of_join [OF nl]
          final_lines_skip [OF sk])
    show "parse_streaming_response_final loads uuid (join [CHR 0x0A] (before @ [bad] @ after))
           = parse_streaming_response_final loads uuid (join [CHR 0x0A] (before @ after))"
      unfolding parse_streaming_response_final_def Let_def f by simp
  }
  {
    assume sk: "skipped_line_swap loads bad"
    have s: "process_lines_swap loads st (split_lines (py_strip (join [CHR 0x0A] (before @ [bad] @ after))))
        = process_lines_swap loads st (split_lines (py_strip (join [CHR 0x0A] (before @ after))))" for st
      by (simp only: swap_lines_of_join [OF assms] swap_lines_of_join [OF nl]
          swap_lines_skip [OF sk])
    show "parse_streaming_response_swap loads uuid (join [CHR 0x0A] (before @ [bad] @ after))
           = parse_streaming_response_swap loads uuid (join [CHR 0x0A] (before @ after))"
      unfolding parse_streaming_response_swap_def Let_def s by simp
  }
qed

theorem bad_line_is_skipped_witness:
  \<open>skipped_line_final example_loads ''0:{bad''
   \<and> skipped_line_swap example_loads ''d:{"finishReason":"stop"}''
   \<and> skipped_line_swap example_loads_deep (''0:'' @ deep_brackets)
   \<and> parse_streaming_response_final example_loads ''u''
        (join [CHR 0x0A] ([''0:"hello"''] @ [''0:{bad''] @ [''9:{"toolCallId":"x","toolName":"swap"}'']))
      = parse_streaming_response_final example_loads ''u''
        (join [CHR 0x0A] ([''0:"hello"''] @ [''9:{"toolCallId":"x","toolName":"swap"}'']))
   \<and> parse_streaming_response_swap example_loads ''u''
        (join [CHR 0x0A] ([''0:"hello"''] @ [''d:{"finishReason":"stop"}''] @ []))
      = parse_streaming_response_swap example_loads ''u'' (join [CHR 0x0A] ([''0:"hello"''] @ []))
   \<and> parse_streaming_response_swap example_loads_deep ''u''
        (join [CHR 0x0A] ([''0:"hello"''] @ [''0:'' @ deep_brackets] @ []))
      = parse_streaming_response_swap example_loads_deep ''u'' (join [CHR 0x0A] ([''0:"hello"''] @ []))\<close>
proof -
  have 1: \<open>\<forall>l \<in> set ([''0:"hello"''] @ [''0:{bad''] @ [''9:{"toolCallId":"x","toolName":"swap"}'']).
        CHR 0x0A \<notin> set l\<close>
    by simp
  have 2: \<open>skipped_line_final example_loads ''0:{bad''\<close>
    by code_simp
  have 3: \<open>\<forall>l \<in> set ([''0:"hello"''] @ [''d:{"finishReason":"stop"}''] @ []). CHR 0x0A \<notin> set l\<close>
    by simp
  have 4: \<open>skipped_line_swap example_loads ''d:{"finishReason":"stop"}''\<close>
  proof -
    have \<open>unrecognized (py_strip ''d:{"finishReason":"stop"}'')\<close> by code_simp
    then show ?thesis by (simp only: skipped_line_swap_def simp_thms)
  qed
  have 5: \<open>\<forall>l \<in> set ([''0:"hello"''] @ [''0:'' @ deep_brackets] @ []). CHR 0x0A \<notin> set l\<close>
    by (simp add: deep_brackets_chars)
  have 6: \<open>skipped_line_swap example_loads_deep (''0:'' @ deep_brackets)\<close>
    by (simp add: skipped_line_swap_def deep_line_strip example_loads_deep_def)
  from bad_line_is_skipped [OF 1, of example_loads \<open>''u''\<close>] 2
  have a: \<open>parse_streaming_response_final example_loads ''u''
        (join [CHR 0x0A] ([''0:"hello"''] @ [''0:{bad''] @ [''9:{"toolCallId":"x","toolName":"swap"}'']))
      = parse_streaming_response_final example_loads ''u''
        (join [CHR 0x0A] ([''0:"hello"''] @ [''9:{"toolCallId":"x","toolName":"swap"}'']))\<close>
    by blast
  from bad_line_is_skipped [OF 3, of example_loads \<open>''u''\<close>] 4
  have b: \<open>parse_streaming_response_swap example_loads ''u''
        (join [CHR 0x0A] ([''0:"hello"''] @ [''d:{"finishReason":"stop"}''] @ []))
      = parse_streaming_response_swap example_loads ''u'' (join [CHR 0x0A] ([''0:"hello"''] @ []))\<close>
    by blast
  from bad_line_is_skipped [OF 5, of example_loads_deep \<open>''u''\<close>] 6
  have c: \<open>parse_streaming_response_swap example_loads_deep ''u''
        (join [CHR 0x0A] ([''0:"hello"''] @ [''0:'' @ deep_brackets] @ []))
      = parse_streaming_response_swap example_loads_deep ''u'' (join [CHR 0x0A] ([''0:"hello"''] @ []))\<close>
    by blast
  from 2 4 6 a b c show ?thesis by blast
qed

lemma line_body_content:
  assumes "\<not> startswith l ''0:''" and "line_body loads st l = Inr st'"
  shows "fst st' = fst st"
  using assms
  by (cases st) (auto simp: line_body_def store_result_def
      split: if_splits sum.splits)

lemma final_line_content:
  assumes "\<not> startswith (py_strip l) ''0:''" and "process_line_final loads st l = Inr st'"
  shows "fst st' = fst st"
proof (cases "py_strip l = []")
  case True
  with assms(2) show ?thesis by (simp add: process_line_final_def)
next
  case False
  show ?thesis
  proof (cases "line_body loads st (py_strip l)")
    case (Inl e)
    with False assms(2) show ?thesis
      by (simp add: process_line_final_def Let_def split: if_splits)
  next
    case (Inr st1)
    with False assms(2) have "st' = st1" by (simp add: process_line_final_def Let_def)
    with line_body_content [OF assms(1) Inr] show ?thesis by simp
  qed
qed

lemma final_lines_content:
  assumes "\<forall>l \<in> set ls. \<not> startswith (py_strip l) ''0:''"
    and "process_lines_final loads st ls = Inr st'"
  shows "fst st' = fst st"
  using assms
proof (induction ls arbitrary: st)
  case Nil
  then show ?case by simp
next
  case (Cons l ls)
  from Cons.prems(2) obtain st1 where 1: "process_line_final loads st l = Inr st1"
    and 2: "process_lines_final loads st1 ls = Inr st'"
    by (auto split: sum.splits)
  from Cons.prems(1) 1 have "fst st1 = fst st"
    by (intro final_line_content [of l loads st st1]) simp_all
  moreover from Cons.prems(1) 2 have "fst st' = fst st1"
    by (intro Cons.IH) simp_all
  ultimately show ?case by simp
qed

lemma swap_line_content:
  assumes "\<not> startswith (py_strip l) ''0:''"
  shows "fst (process_line_swap loads st l) = fst st"
proof (cases "py_strip l = []")
  case True
  then show ?thesis by (simp add: process_line_swap_def)
next
  case False
  show ?thesis
  proof (cases "line_body loads st (py_strip l)")
    case (Inl e)
    with False show ?thesis by (simp add: process_line_swap_def Let_def)
  next
    case (Inr st1)
    with False line_body_content [OF assms Inr] show ?thesis
      by (simp add: process_line_swap_def Let_def)
  qed
qed

lemma swap_lines_content:
  assumes "\<forall>l \<in> set ls. \<not> startswith (py_strip l) ''0:''"
  shows "fst (process_lines_swap loads st ls) = fst st"
  using assms by (induction ls arbitrary: st) (simp_all add: swap_line_content)

lemma final_content:
  assumes "parse_streaming_response_final loads uuid text = Response r"
  shows "\<exists>st. process_lines_final loads ([], [], []) (split_lines (py_strip text)) = Inr st
              \<and> content r = fst st"
  using assms
  by (auto simp: parse_streaming_response_final_def Let_def make_response_def
      split: sum.splits prod.splits)

lemma swap_content:
  assumes "parse_streaming_response_swap loads uuid text = Inr r"
  shows "content r = fst (process_lines_swap loads ([], [], []) (split_lines (py_strip text)))"
  using assms
  by (auto simp: parse_streaming_response_swap_def Let_def make_response_def
      split: sum.splits prod.splits)

lemma parse_empty:
  "parse_streaming_response_final loads uuid [] =
      Response \<lparr> assistant_message = None, content = [], tool_invocations = [] \<rparr>"
  "parse_streaming_response_swap loads uuid [] =
      Inr \<lparr> assistant_message = None, content = [], tool_invocations = [] \<rparr>"
  by (simp_all add: parse_streaming_response_final_def parse_streaming_response_swap_def
      strip_Nil final_line_blank swap_line_blank make_response_def)

text \<open>
  Claim C6, as amended.  Parsing the reconstructed content of a body again gives the same
  content when that content is empty.  When no line of the content starts with \<open>0:\<close>,
  the second parse (if it returns a response at all) has the empty content, whatever the
  first content was.
\<close>
theorem reparse_of_content:
  "(parse_streaming_response_final loads uuid body = Response r \<longrightarrow>
      (content r = [] \<longrightarrow>
         (\<exists>r'. parse_streaming_response_final loads uuid' (content r) = Response r'
               \<and> content r' = content r))
      \<and> (no_text_line (content r) \<longrightarrow>
         (\<forall>r'. parse_streaming_response_final loads uuid' (content r) = Response r' \<longrightarrow>
               content r' = [])))
   \<and> (parse_streaming_response_swap loads uuid body = Inr r \<longrightarrow>
      (content r = [] \<longrightarrow>
         (\<exists>r'. parse_streaming_response_swap loads uuid' (content r) = Inr r'
               \<and> content r' = content r))
      \<and> (no_text_line (content r) \<longrightarrow>
         (\<forall>r'. parse_streaming_response_swap loads uuid' (content r) = Inr r' \<longrightarrow>
               content r' = [])))"
proof -
  have f: "content r' = []"
    if "no_text_line c" "parse_streaming_response_final loads uuid' c = Response r'" for c r'
  proof -
    from final_content [OF that(2)] obtain st
      where "process_lines_final loads ([], [], []) (split_lines (py_strip c)) = Inr st"
        and "content r' = fst st"
      by blast
    with final_lines_content [of "split_lines (py_strip c)" loads "([], [], [])" st] that(1)
    show ?thesis by (simp add: no_text_line_def)
  qed
  have s: "content r' = []"
    if "no_text_line c" "parse_streaming_response_swap loads uuid' c = Inr r'" for c r'
    using swap_content [OF that(2)]
      swap_lines_content [of "split_lines (py_strip c)" loads "([], [], [])"] that(1)
    by (simp add: no_text_line_def)
  have fe: "\<exists>r'. parse_streaming_response_final loads uuid' c = Response r' \<and> content r' = c"
    if "c = []" for c
    unfolding that by (intro exI conjI, rule parse_empty(1)) simp
  have se: "\<exists>r'. parse_streaming_response_swap loads uuid' c = Inr r' \<and> content r' = c"
    if "c = []" for c
    unfolding that by (intro exI conjI, rule parse_empty(2)) simp
  from f s fe se show ?thesis by blast
qed

text \<open>
  Claim C6 as stated fails: the body \<open>0:"hello"\<close> has the content \<open>hello\<close>, and \<open>hello\<close>
  parsed as a body has the empty content.
\<close>
theorem reparse_of_content_counterexample:
  \<open>parse_streaming_response_final example_loads ''u'' ''0:"hello"'' =
      Response \<lparr> assistant_message = Some (JDict [
          (''id'', JStr ''msg-u''), (''role'', JStr ''assistant''), (''content'', JStr ''hello''),
          (''parts'', JList [JDict [(''type'', JStr ''text''), (''text'', JStr ''hello'')]]),
          (''toolInvocations'', JList []),
          (''annotations'', JList [JDict [(''agentId'', JStr ''bitte-defi'')]])]),
        content = ''hello'', tool_invocations = [] \<rparr>
   \<and> parse_streaming_response_final example_loads ''u'' ''hello'' =
      Response \<lparr> assistant_message = None, content = [], tool_invocations = [] \<rparr>
   \<and> parse_streaming_response_swap example_loads ''u'' ''0:"hello"'' =
      Inr \<lparr> assistant_message = Some (JDict [
          (''id'', JStr ''msg-u''), (''role'', JStr ''assistant''), (''content'', JStr ''hello''),
          (''parts'', JList [JDict [(''type'', JStr ''text''), (''text'', JStr ''hello'')]]),
          (''toolInvocations'', JList []),
          (''annotations'', JList [JDict [(''agentId'', JStr ''bitte-defi'')]])]),
        content = ''hello'', tool_invocations = [] \<rparr>
   \<and> parse_streaming_response_swap example_loads ''u'' ''hello'' =
      Inr \<lparr> assistant_message = None, content = [], tool_invocations = [] \<rparr>
   \<and> ''hello'' \<noteq> ([] :: string)\<close>
  by code_simp

theorem reparse_of_content_witness:
  \<open>parse_streaming_response_swap example_loads ''u'' ''0:"hello"'' =
      Inr \<lparr> assistant_message = Some (JDict [
          (''id'', JStr ''msg-u''), (''role'', JStr ''assistant''), (''content'', JStr ''hello''),
          (''parts'', JList [JDict [(''type'', JStr ''text''), (''text'', JStr ''hello'')]]),
          (''toolInvocations'', JList []),
          (''annotations'', JList [JDict [(''agentId'', JStr ''bitte-defi'')]])]),
        content = ''hello'', tool_invocations = [] \<rparr>
   \<and> no_text_line ''hello''
   \<and> parse_streaming_response_swap example_loads ''v'' ''hello'' =
      Inr \<lparr> assistant_message = None, content = [], tool_invocations = [] \<rparr>
   \<and> parse_streaming_response_final example_loads ''u'' ''d:{"finishReason":"stop"}'' =
      Response \<lparr> assistant_message = None, content = [], tool_invocations = [] \<rparr>
   \<and> (\<exists>r'. parse_streaming_response_final example_loads ''v'' [] = Response r' \<and> content r' = [])\<close>
proof -
  let ?r = \<open>\<lparr> assistant_message = Some (JDict [
          (''id'', JStr ''msg-u''), (''role'', JStr ''assistant''), (''content'', JStr ''hello''),
          (''parts'', JList [JDict [(''type'', JStr ''text''), (''text'', JStr ''hello'')]]),
          (''toolInvocations'', JList []),
          (''annotations'', JList [JDict [(''agentId'', JStr ''bitte-defi'')]])]),
        content = ''hello'', tool_invocations = [] \<rparr>\<close>
  let ?e = "\<lparr> assistant_message = None, content = [], tool_invocations = [] \<rparr>"
  have 1: \<open>parse_streaming_response_swap example_loads ''u'' ''0:"hello"'' = Inr ?r\<close>
    by code_simp
  have 2: "no_text_line ''hello''"
    by code_simp
  have 3: "parse_streaming_response_swap example_loads ''v'' ''hello'' = Inr ?e"
    by code_simp
  have 4: \<open>parse_streaming_response_final example_loads ''u'' ''d:{"finishReason":"stop"}'' = Response ?e\<close>
    by code_simp
  from reparse_of_content [of example_loads \<open>''u''\<close> \<open>''0:"hello"''\<close> ?r \<open>''v''\<close>] 1 2 3
  have a: "content ?e = []" by simp
  from reparse_of_content [of example_loads \<open>''u''\<close> \<open>''d:{"finishReason":"stop"}''\<close> ?e \<open>''v''\<close>] 4
  have b: "\<exists>r'. parse_streaming_response_final example_loads ''v'' [] = Response r' \<and> content r' = []"
    by simp
  from 1 2 3 4 b show ?thesis by blast
qed

section \<open>The merge of tool calls and results\<close>

lemma key_eq_sym: "key_eq a b \<Longrightarrow> key_eq b a"
  by (cases a; cases b) (auto simp: key_eq_def)

lemma key_eq_trans: "key_eq a b \<Longrightarrow> key_eq b c \<Longrightarrow> key_eq a c"
  by (cases a; cases b; cases c) (auto simp: key_eq_def)

lemma key_eq_unhashable: "\<not> hashable a \<Longrightarrow> \<not> key_eq a b"
  by (cases a; cases b) (auto simp: key_eq_def)

lemma results_get_set:
  "results_get (results_set d k v) q = (if key_eq k q then Some v else results_get d q)"
proof (induction d)
  case Nil
  then show ?case by simp
next
  case (Cons p d)
  obtain k1 v1 where p: "p = (k1, v1)" by (cases p)
  show ?case
  proof (cases "key_eq k1 k")
    case True
    then have "key_eq k1 q \<longleftrightarrow> key_eq k q"
      by (meson key_eq_sym key_eq_trans)
    with True show ?thesis by (simp add: p)
  next
    case False
    have "\<not> (key_eq k1 q \<and> key_eq k q)"
      using False by (meson key_eq_sym key_eq_trans)
    with False show ?thesis by (auto simp: p Cons.IH)
  qed
qed

lemma latest_Nil: "latest [] q old = old"
  by (simp add: latest_def)

lemma latest_append: "latest (xs @ ys) q old = latest ys q (latest xs q old)"
  by (simp add: latest_def Let_def)

lemma latest_single:
  "latest [v] q old = (if py_truthy (call_id v) \<and> key_eq (call_id v) q then Some v else old)"
  by (simp add: latest_def Let_def)

lemma payloads_Nil: "payloads loads p [] = []"
  by (simp add: payloads_def map_filter_simps)

lemma payloads_append: "payloads loads p (xs @ ys) = payloads loads p xs @ payloads loads p ys"
  by (simp add: payloads_def map_filter_def)

lemma payloads_single:
  "payloads loads p [l] =
     (if startswith l p then (case loads (drop 2 l) of Inr v \<Rightarrow> [v] | Inl e \<Rightarrow> []) else [])"
  by (simp add: payloads_def map_filter_simps split: sum.splits)

lemma prefixes_differ:
  "startswith l ''0:'' \<Longrightarrow> \<not> startswith l ''9:'' \<and> \<not> startswith l ''a:''"
  "startswith l ''9:'' \<Longrightarrow> \<not> startswith l ''0:'' \<and> \<not> startswith l ''a:''"
  "startswith l ''a:'' \<Longrightarrow> \<not> startswith l ''0:'' \<and> \<not> startswith l ''9:''"
  by (auto simp: startswith_def)

lemma store_result_Inr:
  assumes "store_result (c0, calls0, res0) v = Inr (c1, calls1, res1)"
  shows "c1 = c0 \<and> calls1 = calls0
       \<and> (\<forall>q. results_get res1 q = latest [v] q (results_get res0 q))"
proof (cases v)
  case (JDict d)
  show ?thesis
  proof (cases "py_truthy (call_id v)")
    case True
    with assms JDict have "hashable (call_id v)"
      and "res1 = results_set res0 (call_id v) v" and "c1 = c0" and "calls1 = calls0"
      by (auto simp: store_result_def dict_get_def call_id_def split: if_splits option.splits)
    with True show ?thesis by (simp add: latest_single results_get_set)
  next
    case False
    with assms JDict show ?thesis
      by (auto simp: store_result_def dict_get_def call_id_def latest_single
          split: if_splits option.splits)
  qed
qed (use assms in \<open>auto simp: store_result_def dict_get_def\<close>)

lemma store_result_Inl:
  assumes "store_result st v = Inl e"
  shows "latest [v] q old = old"
proof (cases v)
  case (JDict d)
  with assms have "py_truthy (call_id v)" and "\<not> hashable (call_id v)"
    by (cases st; auto simp: store_result_def dict_get_def call_id_def
        split: if_splits option.splits)+
  then show ?thesis by (simp add: latest_single key_eq_unhashable)
qed (simp_all add: latest_single call_id_def)

lemma line_body_inv:
  assumes "line_body loads (c0, calls0, res0) l = Inr (c1, calls1, res1)"
  shows "calls1 = calls0 @ payloads loads ''9:'' [l]
       \<and> (\<forall>q. results_get res1 q = latest (payloads loads ''a:'' [l]) q (results_get res0 q))"
proof -
  consider (delta) "startswith l ''0:''"
    | (call) "startswith l ''9:''"
    | (result) "startswith l ''a:''"
    | (other) "\<not> startswith l ''0:''" "\<not> startswith l ''9:''" "\<not> startswith l ''a:''"
    by blast
  then show ?thesis
  proof cases
    case delta
    with assms prefixes_differ(1) [OF delta] show ?thesis
      by (auto simp: line_body_def payloads_single latest_Nil split: sum.splits json.splits)
  next
    case call
    with assms prefixes_differ(2) [OF call] show ?thesis
      by (auto simp: line_body_def payloads_single latest_Nil split: sum.splits)
  next
    case result
    show ?thesis
    proof (cases "loads (drop 2 l)")
      case (Inl e)
      with assms result prefixes_differ(3) [OF result] show ?thesis
        by (simp add: line_body_def)
    next
      case (Inr v)
      with assms result prefixes_differ(3) [OF result]
      have "store_result (c0, calls0, res0) v = Inr (c1, calls1, res1)"
        by (simp add: line_body_def)
      from store_result_Inr [OF this] result prefixes_differ(3) [OF result] Inr
      show ?thesis
        by (simp add: payloads_single)
    qed
  next
    case other
    with assms show ?thesis
      by (simp add: line_body_def payloads_single latest_Nil)
  qed
qed

lemma line_body_raised:
  assumes "line_body loads st l = Inl e"
  shows "payloads loads ''9:'' [l] = []
       \<and> (\<forall>q old. latest (payloads loads ''a:'' [l]) q old = old)"
proof -
  obtain c0 calls0 res0 where st: "st = (c0, calls0, res0)" by (cases st)
  consider (delta) "startswith l ''0:''"
    | (call) "startswith l ''9:''"
    | (result) "startswith l ''a:''"
    | (other) "\<not> startswith l ''0:''" "\<not> startswith l ''9:''" "\<not> startswith l ''a:''"
    by blast
  then show ?thesis
  proof cases
    case delta
    with prefixes_differ(1) [OF delta] show ?thesis
      by (simp add: payloads_single latest_Nil)
  next
    case call
    with assms prefixes_differ(2) [OF call] show ?thesis
      by (auto simp: st line_body_def payloads_single latest_Nil split: sum.splits)
  next
    case result
    show ?thesis
    proof (cases "loads (drop 2 l)")
      case (Inl e')
      with result prefixes_differ(3) [OF result] show ?thesis
        by (simp add: payloads_single latest_Nil)
    next
      case (Inr v)
      with assms result prefixes_differ(3) [OF result]
      have "store_result st v = Inl e"
        by (simp add: st line_body_def)
      from store_result_Inl [OF this] result prefixes_differ(3) [OF result] Inr
      show ?thesis
        by (simp add: payloads_single)
    qed
  next
    case other
    with assms show ?thesis
      by (simp add: st line_body_def)
  qed
qed

lemma final_line_inv:
  assumes "process_line_final loads (c0, calls0, res0) l = Inr (c1, calls1, res1)"
  shows "calls1 = calls0 @ payloads loads ''9:'' (core [l])
       \<and> (\<forall>q. results_get res1 q = latest (payloads loads ''a:'' (core [l])) q (results_get res0 q))"
proof (cases "py_strip l = []")
  case True
  with assms show ?thesis
    by (simp add: process_line_final_def core_single payloads_Nil latest_Nil)
next
  case ne: False
  show ?thesis
  proof (cases "line_body loads (c0, calls0, res0) (py_strip l)")
    case (Inl e)
    with assms ne have "c1 = c0" "calls1 = calls0" "res1 = res0"
      by (simp_all add: process_line_final_def Let_def split: if_splits)
    with line_body_raised [OF Inl] ne show ?thesis
      by (simp add: core_single)
  next
    case (Inr st')
    with assms ne have "line_body loads (c0, calls0, res0) (py_strip l) = Inr (c1, calls1, res1)"
      by (simp add: process_line_final_def Let_def)
    from line_body_inv [OF this] ne show ?thesis
      by (simp add: core_single)
  qed
qed

lemma final_lines_inv:
  assumes "process_lines_final loads (c0, calls0, res0) ls = Inr (c1, calls1, res1)"
  shows "calls1 = calls0 @ payloads loads ''9:'' (core ls)
       \<and> (\<forall>q. results_get res1 q = latest (payloads loads ''a:'' (core ls)) q (results_get res0 q))"
  using assms
proof (induction ls arbitrary: c0 calls0 res0)
  case Nil
  then show ?case by (simp add: core_def payloads_Nil latest_Nil)
next
  case (Cons l ls)
  from Cons.prems obtain c' calls' res'
    where 1: "process_line_final loads (c0, calls0, res0) l = Inr (c', calls', res')"
      and 2: "process_lines_final loads (c', calls', res') ls = Inr (c1, calls1, res1)"
    by (auto split: sum.splits)
  from final_line_inv [OF 1] Cons.IH [OF 2] show ?case
    by (subst (1 2) core_Cons) (simp add: payloads_append latest_append)
qed

lemma swap_line_inv:
  assumes "process_line_swap loads (c0, calls0, res0) l = (c1, calls1, res1)"
  shows "calls1 = calls0 @ payloads loads ''9:'' (core [l])
       \<and> (\<forall>q. results_get res1 q = latest (payloads loads ''a:'' (core [l])) q (results_get res0 q))"
proof (cases "py_strip l = []")
  case True
  with assms show ?thesis
    by (simp add: process_line_swap_def core_single payloads_Nil latest_Nil)
next
  case ne: False
  show ?thesis
  proof (cases "line_body loads (c0, calls0, res0) (py_strip l)")
    case (Inl e)
    with assms ne have "c1 = c0" "calls1 = calls0" "res1 = res0"
      by (simp_all add: process_line_swap_def Let_def)
    with line_body_raised [OF Inl] ne show ?thesis
      by (simp add: core_single)
  next
    case (Inr st')
    with assms ne have "line_body loads (c0, calls0, res0) (py_strip l) = Inr (c1, calls1, res1)"
      by (simp add: process_line_swap_def Let_def)
    from line_body_inv [OF this] ne show ?thesis
      by (simp add: core_single)
  qed
qed

lemma swap_lines_inv:
  assumes "process_lines_swap loads (c0, calls0, res0) ls = (c1, calls1, res1)"
  shows "calls1 = calls0 @ payloads loads ''9:'' (core ls)
       \<and> (\<forall>q. results_get res1 q = latest (payloads loads ''a:'' (core ls)) q (results_get res0 q))"
  using assms
proof (induction ls arbitrary: c0 calls0 res0)
  case Nil
  then show ?case by (simp add: core_def payloads_Nil latest_Nil)
next
  case (Cons l ls)
  obtain c' calls' res'
    where 1: "process_line_swap loads (c0, calls0, res0) l = (c', calls', res')"
    by (cases "process_line_swap loads (c0, calls0, res0) l") auto
  with Cons.prems have 2: "process_lines_swap loads (c', calls', res') ls = (c1, calls1, res1)"
    by simp
  from swap_line_inv [OF 1] Cons.IH [OF 2] show ?case
    by (subst (1 2) core_Cons) (simp add: payloads_append latest_append)
qed

lemma combine_tool_merged:
  assumes "combine_tool res c = Inr x"
    and "\<forall>q. results_get res q = latest rs q None"
  shows "x = merged_call (results_for rs c) c \<and> (\<exists>kvs. c = JDict kvs)"
proof -
  from assms(1) obtain kvs where c: "c = JDict kvs"
    by (cases c) (auto simp: combine_tool_def)
  have id: "call_id c = (case map_of kvs ''toolCallId'' of Some v \<Rightarrow> v | None \<Rightarrow> JNull)"
    by (simp add: c call_id_def)
  have look: "results_get res (call_id c) =
      (if results_for rs c = [] then None else Some (last (results_for rs c)))"
    by (simp add: assms(2) latest_def results_for_def Let_def)
  show ?thesis
  proof (cases "results_for rs c = []")
    case True
    with assms(1) look show ?thesis
      by (auto simp: combine_tool_def c id [symmetric] merged_call_def Let_def split: if_splits)
  next
    case False
    with assms(1) look
    have d: "dict_get (last (results_for rs c)) ''result'' (JDict []) = Inr (result_field (last (results_for rs c)))
             \<and> x = JDict (AList.update ''state'' (JStr ''completed'')
                     (AList.update ''result'' (result_field (last (results_for rs c))) kvs))"
      by (cases "last (results_for rs c)")
        (auto simp: combine_tool_def c id [symmetric] Let_def dict_get_def result_field_def
          split: if_splits sum.splits)
    with False show ?thesis by (simp add: merged_call_def c)
  qed
qed

lemma combine_tools_merged:
  assumes "combine_tools res calls = Inr out"
    and "\<forall>q. results_get res q = latest rs q None"
  shows "out = map (\<lambda>c. merged_call (results_for rs c) c) calls
       \<and> (\<forall>c \<in> set calls. \<exists>kvs. c = JDict kvs)"
  using assms(1)
proof (induction calls arbitrary: out)
  case Nil
  then show ?case by simp
next
  case (Cons c calls)
  from Cons.prems obtain x xs where x: "combine_tool res c = Inr x"
    and xs: "combine_tools res calls = Inr xs" and out: "out = x # xs"
    by (auto split: sum.splits)
  from combine_tool_merged [OF x assms(2)] Cons.IH [OF xs] out show ?case by simp
qed

text \<open>
  Claim C1, as amended.  When the parse succeeds, every \<open>9:\<close> tool call is a dict and the
  merged list has exactly one entry for each, in encounter order.  The entry of a call
  whose \<open>toolCallId\<close> is that of some \<open>a:\<close> result with a truthy \<open>toolCallId\<close> is the
  call's fields with \<open>state\<close> \<open>completed\<close> and, as \<open>result\<close>, the \<open>result\<close> field of the last
  such result (the empty dict if it has none); the entry of any other call is the call's
  fields with \<open>state\<close> \<open>pending\<close> and nothing else added.
\<close>
theorem merged_tool_invocations:
  "(parse_streaming_response_final loads uuid text = Response r \<longrightarrow>
      tool_invocations r =
        map (\<lambda>c. merged_call (results_for (tool_results_of loads text) c) c) (tool_calls_of loads text)
      \<and> (\<forall>c \<in> set (tool_calls_of loads text). \<exists>kvs. c = JDict kvs))
   \<and> (parse_streaming_response_swap loads uuid text = Inr r \<longrightarrow>
      tool_invocations r =
        map (\<lambda>c. merged_call (results_for (tool_results_of loads text) c) c) (tool_calls_of loads text)
      \<and> (\<forall>c \<in> set (tool_calls_of loads text). \<exists>kvs. c = JDict kvs))"
proof (intro conjI impI)
  assume "parse_streaming_response_final loads uuid text = Response r"
  then obtain c1 calls1 res1 out
    where p: "process_lines_final loads ([], [], []) (split_lines (py_strip text)) = Inr (c1, calls1, res1)"
      and m: "combine_tools res1 calls1 = Inr out" and r: "tool_invocations r = out"
    by (auto simp: parse_streaming_response_final_def Let_def make_response_def
        split: sum.splits prod.splits)
  from final_lines_inv [OF p]
  have calls: "calls1 = tool_calls_of loads text"
    and res: "\<forall>q. results_get res1 q = latest (tool_results_of loads text) q None"
    by (simp_all add: tool_calls_of_def tool_results_of_def stream_lines_def)
  from combine_tools_merged [OF m res] calls r
  show "tool_invocations r =
        map (\<lambda>c. merged_call (results_for (tool_results_of loads text) c) c) (tool_calls_of loads text)"
    and "\<forall>c \<in> set (tool_calls_of loads text). \<exists>kvs. c = JDict kvs"
    by simp_all
next
  assume "parse_streaming_response_swap loads uuid text = Inr r"
  then obtain c1 calls1 res1 out
    where p: "process_lines_swap loads ([], [], []) (split_lines (py_strip text)) = (c1, calls1, res1)"
      and m: "combine_tools res1 calls1 = Inr out" and r: "tool_invocations r = out"
    by (auto simp: parse_streaming_response_swap_def Let_def make_response_def
        split: sum.splits prod.splits)
  from swap_lines_inv [OF p]
  have calls: "calls1 = tool_calls_of loads text"
    and res: "\<forall>q. results_get res1 q = latest (tool_results_of loads text) q None"
    by (simp_all add: tool_calls_of_def tool_results_of_def stream_lines_def)
  from combine_tools_merged [OF m res] calls r
  show "tool_invocations r =
        map (\<lambda>c. merged_call (results_for (tool_results_of loads text) c) c) (tool_calls_of loads text)"
    and "\<forall>c \<in> set (tool_calls_of loads text). \<exists>kvs. c = JDict kvs"
    by simp_all
qed

text \<open>
  Claim C1 as stated fails for an identifier that is not truthy: the call and the result
  below both declare the empty \<open>toolCallId\<close>, and the merged invocation is pending.
\<close>
theorem merged_tool_invocations_counterexample:
  \<open>tool_calls_of example_loads (''9:{"toolCallId":""}'' @ [CHR 0x0A] @ ''a:{"toolCallId":"","result":1}'')
      = [JDict [(''toolCallId'', JStr [])]]
   \<and> tool_results_of example_loads (''9:{"toolCallId":""}'' @ [CHR 0x0A] @ ''a:{"toolCallId":"","result":1}'')
      = [JDict [(''toolCallId'', JStr []), (''result'', JInt 1)]]
   \<and> call_id (JDict [(''toolCallId'', JStr [])])
      = call_id (JDict [(''toolCallId'', JStr []), (''result'', JInt 1)])
   \<and> parse_streaming_response_final example_loads ''u''
        (''9:{"toolCallId":""}'' @ [CHR 0x0A] @ ''a:{"toolCallId":"","result":1}'')
      = Response \<lparr> assistant_message = Some (JDict [
            (''id'', JStr ''msg-u''), (''role'', JStr ''assistant''), (''content'', JStr []),
            (''parts'', JList [JDict [(''type'', JStr ''text''), (''text'', JStr [])]]),
            (''toolInvocations'', JList [JDict [(''toolCallId'', JStr []), (''state'', JStr ''pending'')]]),
            (''annotations'', JList [JDict [(''agentId'', JStr ''bitte-defi'')]])]),
          content = [],
          tool_invocations = [JDict [(''toolCallId'', JStr []), (''state'', JStr ''pending'')]] \<rparr>
   \<and> parse_streaming_response_swap example_loads ''u''
        (''9:{"toolCallId":""}'' @ [CHR 0x0A] @ ''a:{"toolCallId":"","result":1}'')
      = Inr \<lparr> assistant_message = Some (JDict [
            (''id'', JStr ''msg-u''), (''role'', JStr ''assistant''), (''content'', JStr []),
            (''parts'', JList [JDict [(''type'', JStr ''text''), (''text'', JStr [])]]),
            (''toolInvocations'', JList [JDict [(''toolCallId'', JStr []), (''state'', JStr ''pending'')]]),
            (''annotations'', JList [JDict [(''agentId'', JStr ''bitte-defi'')]])]),
          content = [],
          tool_invocations = [JDict [(''toolCallId'', JStr []), (''state'', JStr ''pending'')]] \<rparr>\<close>
  by code_simp

theorem merged_tool_invocations_witness:
  \<open>tool_calls_of example_loads
       (''9:{"toolCallId":"x","toolName":"swap"}'' @ [CHR 0x0A]
        @ ''9:{"toolCallId":"y","toolName":"generate-evm-tx"}'' @ [CHR 0x0A]
        @ ''a:{"toolCallId":"x","result":{"data":7}}'')
      = [JDict [(''toolCallId'', JStr ''x''), (''toolName'', JStr ''swap'')],
         JDict [(''toolCallId'', JStr ''y''), (''toolName'', JStr ''generate-evm-tx'')]]
   \<and> tool_results_of example_loads
       (''9:{"toolCallId":"x","toolName":"swap"}'' @ [CHR 0x0A]
        @ ''9:{"toolCallId":"y","toolName":"generate-evm-tx"}'' @ [CHR 0x0A]
        @ ''a:{"toolCallId":"x","result":{"data":7}}'')
      = [JDict [(''toolCallId'', JStr ''x''), (''result'', JDict [(''data'', JInt 7)])]]
   \<and> (\<exists>r. parse_streaming_response_swap example_loads ''u''
       (''9:{"toolCallId":"x","toolName":"swap"}'' @ [CHR 0x0A]
        @ ''9:{"toolCallId":"y","toolName":"generate-evm-tx"}'' @ [CHR 0x0A]
        @ ''a:{"toolCallId":"x","result":{"data":7}}'') = Inr r
      \<and> tool_invocations r =
         [JDict [(''toolCallId'', JStr ''x''), (''toolName'', JStr ''swap''),
                 (''result'', JDict [(''data'', JInt 7)]), (''state'', JStr ''completed'')],
          JDict [(''toolCallId'', JStr ''y''), (''toolName'', JStr ''generate-evm-tx''),
                 (''state'', JStr ''pending'')]])\<close>
proof -
  let ?body = \<open>''9:{"toolCallId":"x","toolName":"swap"}'' @ [CHR 0x0A]
        @ ''9:{"toolCallId":"y","toolName":"generate-evm-tx"}'' @ [CHR 0x0A]
        @ ''a:{"toolCallId":"x","result":{"data":7}}''\<close>
  let ?x = "JDict [(''toolCallId'', JStr ''x''), (''toolName'', JStr ''swap'')]"
  let ?y = "JDict [(''toolCallId'', JStr ''y''), (''toolName'', JStr ''generate-evm-tx'')]"
  let ?a = "JDict [(''toolCallId'', JStr ''x''), (''result'', JDict [(''data'', JInt 7)])]"
  have calls: "tool_calls_of example_loads ?body = [?x, ?y]"
    by code_simp
  have results: "tool_results_of example_loads ?body = [?a]"
    by code_simp
  have m: "map (\<lambda>c. merged_call (results_for [?a] c) c) [?x, ?y] =
         [JDict [(''toolCallId'', JStr ''x''), (''toolName'', JStr ''swap''),
                 (''result'', JDict [(''data'', JInt 7)]), (''state'', JStr ''completed'')],
          JDict [(''toolCallId'', JStr ''y''), (''toolName'', JStr ''generate-evm-tx''),
                 (''state'', JStr ''pending'')]]"
    by code_simp
  let ?out = "[JDict [(''toolCallId'', JStr ''x''), (''toolName'', JStr ''swap''),
                 (''result'', JDict [(''data'', JInt 7)]), (''state'', JStr ''completed'')],
          JDict [(''toolCallId'', JStr ''y''), (''toolName'', JStr ''generate-evm-tx''),
                 (''state'', JStr ''pending'')]]"
  let ?r = "\<lparr> assistant_message = Some (JDict [
            (''id'', JStr ''msg-u''), (''role'', JStr ''assistant''), (''content'', JStr []),
            (''parts'', JList [JDict [(''type'', JStr ''text''), (''text'', JStr [])]]),
            (''toolInvocations'', JList ?out),
            (''annotations'', JList [JDict [(''agentId'', JStr ''bitte-defi'')]])]),
          content = [], tool_invocations = ?out \<rparr>"
  have r: "parse_streaming_response_swap example_loads ''u'' ?body = Inr ?r"
    by code_simp
  from merged_tool_invocations [of example_loads \<open>''u''\<close> ?body ?r] r
  have "tool_invocations ?r = map (\<lambda>c. merged_call (results_for [?a] c) c) [?x, ?y]"
    unfolding calls results by blast
  with m r calls results show ?thesis by auto
qed

end
